theory Spec2Isabelle
  imports Main "HOL-Library.Word"
begin

section \<open>itk::LabelMap: the sparse labelled-region container\<close>

text \<open>
  The development follows \<^verbatim>\<open>Modules/Filtering/LabelMap/include/itkLabelMap.hxx\<close>.
  A \<^verbatim>\<open>LabelMap\<close> owns a \<^verbatim>\<open>std::map< LabelType, SmartPointer< LabelObject > >\<close> and a
  background value. The label objects live on the C++ heap and are reached through
  reference-counted pointers, so the same object can be held by two label maps (after
  \<^verbatim>\<open>Graft\<close>) or by the caller and a label map at once. The model therefore keeps an
  explicit heap of label objects and stores addresses in the container.
\<close>

subsection \<open>Label values\<close>

text \<open>
  \<^verbatim>\<open>LabelType\<close> is an unsigned integer type of the label object (\<^verbatim>\<open>unsigned long\<close> by
  default, \<^verbatim>\<open>unsigned char\<close> in small label maps). It is modelled as a machine word of
  any width: addition and subtraction wrap around, the order is the unsigned order.
\<close>

text \<open>
  Modelled from the spec: \<^verbatim>\<open>NumericTraits< LabelType >::max()\<close> and
  \<^verbatim>\<open>NumericTraits< LabelType >::NonpositiveMin()\<close> are declared in
  \<^verbatim>\<open>itkNumericTraits.h\<close>, which is not among the sources; the specification calls them
  the maximum and the minimum of the ordered integral label type.
\<close>

definition LabelType_max :: "'l::len word" where
  "LabelType_max = - 1"

definition LabelType_NonpositiveMin :: "'l::len word" where
  "LabelType_NonpositiveMin = 0"

subsection \<open>Label objects (external collaborator)\<close>

type_synonym IndexType = "int list"

text \<open>
  Modelled from the spec: the class \<^verbatim>\<open>LabelObject\<close> is not among the sources. The
  specification gives its capability set: \<^verbatim>\<open>hasIndex\<close>, \<^verbatim>\<open>addIndex\<close>, \<^verbatim>\<open>addLine\<close>,
  \<^verbatim>\<open>removeIndex\<close> (true iff the position was present), \<^verbatim>\<open>isEmpty\<close>, \<^verbatim>\<open>getLabel\<close>,
  \<^verbatim>\<open>setLabel\<close>. A label object is its label and the set of positions it owns; a line is
  the run of \<open>len\<close> positions that starts at a position and advances the first
  coordinate.
\<close>

record 'lab LabelObject =
  m_Label :: "'lab"
  m_Region :: "IndexType set"

definition LabelObject_New :: "('l::len word) LabelObject" where
  "LabelObject_New = \<lparr> m_Label = 0, m_Region = {} \<rparr>"

definition GetLabel :: "'lab LabelObject \<Rightarrow> 'lab" where
  "GetLabel ob = m_Label ob"

definition SetLabel :: "'lab LabelObject \<Rightarrow> 'lab \<Rightarrow> 'lab LabelObject" where
  "SetLabel ob label = ob \<lparr> m_Label := label \<rparr>"

definition HasIndex :: "'lab LabelObject \<Rightarrow> IndexType \<Rightarrow> bool" where
  "HasIndex ob idx = (idx \<in> m_Region ob)"

definition AddIndex :: "'lab LabelObject \<Rightarrow> IndexType \<Rightarrow> 'lab LabelObject" where
  "AddIndex ob idx = ob \<lparr> m_Region := insert idx (m_Region ob) \<rparr>"

definition RemoveIndex :: "'lab LabelObject \<Rightarrow> IndexType \<Rightarrow> bool \<times> 'lab LabelObject" where
  "RemoveIndex ob idx = (idx \<in> m_Region ob, ob \<lparr> m_Region := m_Region ob - {idx} \<rparr>)"

definition Empty :: "'lab LabelObject \<Rightarrow> bool" where
  "Empty ob = (m_Region ob = {})"

fun line_positions :: "IndexType \<Rightarrow> nat \<Rightarrow> IndexType set" where
  "line_positions [] len = {}"
| "line_positions (x # rest) len = (\<lambda>k. (x + int k) # rest) ` {0 ..< len}"

definition AddLine :: "'lab LabelObject \<Rightarrow> IndexType \<Rightarrow> nat \<Rightarrow> 'lab LabelObject" where
  "AddLine ob idx len = ob \<lparr> m_Region := m_Region ob \<union> line_positions idx len \<rparr>"

subsection \<open>The heap of label objects\<close>

text \<open>
  A pointer to a label object is an address; \<open>None\<close> is the null pointer. Every address
  holds an object, as every non-null smart pointer of the program does; \<open>next_free\<close> is
  the address the next \<^verbatim>\<open>LabelObjectType::New()\<close> returns.
\<close>

type_synonym addr = nat

record 'lab heap =
  cells :: "addr \<Rightarrow> 'lab LabelObject"
  next_free :: addr

definition deref :: "'lab heap \<Rightarrow> addr \<Rightarrow> 'lab LabelObject" where
  "deref h a = cells h a"

definition store :: "'lab heap \<Rightarrow> addr \<Rightarrow> 'lab LabelObject \<Rightarrow> 'lab heap" where
  "store h a ob = h \<lparr> cells := (cells h)(a := ob) \<rparr>"

definition New :: "('l::len word) heap \<Rightarrow> addr \<times> ('l word) heap" where
  "New h = (next_free h,
            h \<lparr> cells := (cells h)(next_free h := LabelObject_New),
                next_free := Suc (next_free h) \<rparr>)"

subsection \<open>The ordered container\<close>

text \<open>
  \<^verbatim>\<open>std::map\<close> keeps its entries in ascending key order with unique keys. It is an
  association list; \<open>container_assign\<close> is \<^verbatim>\<open>m[k] = v\<close>, \<open>container_erase\<close> is
  \<^verbatim>\<open>m.erase(k)\<close>, \<open>container_find\<close> is \<^verbatim>\<open>m.find(k)\<close>, where the iterator it returns is
  the entry it points to and \<open>None\<close> is \<^verbatim>\<open>m.end()\<close>.
\<close>

fun container_assign :: "('k::linorder \<times> 'v) list \<Rightarrow> 'k \<Rightarrow> 'v \<Rightarrow> ('k \<times> 'v) list" where
  "container_assign [] k v = [(k, v)]"
| "container_assign (e # es) k v =
     (if k < fst e then (k, v) # e # es
      else if k = fst e then (k, v) # es
      else e # container_assign es k v)"

definition container_erase :: "('k \<times> 'v) list \<Rightarrow> 'k \<Rightarrow> ('k \<times> 'v) list" where
  "container_erase c k = filter (\<lambda>e. fst e \<noteq> k) c"

definition container_find :: "('k \<times> 'v) list \<Rightarrow> 'k \<Rightarrow> ('k \<times> 'v) option" where
  "container_find c k = List.find (\<lambda>e. fst e = k) c"

definition keys :: "('k \<times> 'v) list \<Rightarrow> 'k set" where
  "keys c = fst ` set c"

definition ordered :: "('k::linorder \<times> 'v) list \<Rightarrow> bool" where
  "ordered c = sorted_wrt (<) (map fst c)"

subsection \<open>The label map\<close>

text \<open>
  \<open>m_MTime\<close> counts the calls of \<^verbatim>\<open>Modified()\<close>, the change notification inherited from
  \<^verbatim>\<open>itk::Object\<close>.
\<close>

record 'lab LabelMap =
  m_BackgroundValue :: "'lab"
  m_LabelObjectContainer :: "('lab \<times> addr) list"
  m_MTime :: nat

datatype error =
    NullArgument
  | BackgroundLabelAccess
  | LabelNotFound
  | PositionNotFound
  | IndexOutOfRange
  | ContainerFull
  | IncompatibleSourceType
  | UndefinedBehaviour

text \<open>
  An operation that throws leaves the state as it is at the throw; the caller can catch the
  exception and go on. A failing result therefore carries the state next to the error.
  \<open>UndefinedBehaviour\<close> is no exception of the program: it marks the point where the
  C++ program dereferences an invalidated iterator, after which nothing is known about it.
\<close>

type_synonym 's result = "(error \<times> 's) + 's"

type_synonym 'lab state = "'lab heap \<times> 'lab LabelMap"

definition Modified :: "'lab LabelMap \<Rightarrow> 'lab LabelMap" where
  "Modified lm = lm \<lparr> m_MTime := Suc (m_MTime lm) \<rparr>"

definition ClearLabels :: "'lab LabelMap \<Rightarrow> 'lab LabelMap" where
  "ClearLabels lm =
     (if m_LabelObjectContainer lm \<noteq> []
      then Modified (lm \<lparr> m_LabelObjectContainer := [] \<rparr>)
      else lm)"

definition Initialize :: "'lab LabelMap \<Rightarrow> 'lab LabelMap" where
  "Initialize lm = ClearLabels lm"

definition Allocate :: "'lab LabelMap \<Rightarrow> 'lab LabelMap" where
  "Allocate lm = Initialize lm"

definition LabelMap_ctor :: "('l::len word) LabelMap" where
  "LabelMap_ctor =
     Initialize \<lparr> m_BackgroundValue = 0, m_LabelObjectContainer = [], m_MTime = 0 \<rparr>"

subsubsection \<open>Graft\<close>

text \<open>
  The argument of \<^verbatim>\<open>Graft\<close> is a pointer to any \<^verbatim>\<open>DataObject\<close>: null, a label map of the
  same kind, or something the \<^verbatim>\<open>dynamic_cast\<close> rejects. \<^verbatim>\<open>Superclass::Graft\<close> copies the
  image geometry, which is no part of this model. No label object is read or written, so
  the heap is no argument.
\<close>

datatype 'lab DataObject = LabelMapData "'lab LabelMap" | OtherData

definition Graft :: "'lab LabelMap \<Rightarrow> 'lab DataObject option \<Rightarrow> ('lab LabelMap) result" where
  "Graft lm data =
     (case data of
        None \<Rightarrow> Inr lm
      | Some (LabelMapData imgData) \<Rightarrow>
          Inr (lm \<lparr> m_LabelObjectContainer := m_LabelObjectContainer imgData,
                    m_BackgroundValue := m_BackgroundValue imgData \<rparr>)
      | Some OtherData \<Rightarrow> Inl (IncompatibleSourceType, lm))"

subsubsection \<open>Queries\<close>

definition GetLabelObject_label :: "'lab LabelMap \<Rightarrow> 'lab \<Rightarrow> error + addr" where
  "GetLabelObject_label lm label =
     (if m_BackgroundValue lm = label then Inl BackgroundLabelAccess
      else case container_find (m_LabelObjectContainer lm) label of
             None \<Rightarrow> Inl LabelNotFound
           | Some it \<Rightarrow> Inr (snd it))"

definition HasLabel :: "'lab LabelMap \<Rightarrow> 'lab \<Rightarrow> bool" where
  "HasLabel lm label =
     (if label = m_BackgroundValue lm then True
      else container_find (m_LabelObjectContainer lm) label \<noteq> None)"

fun GetPixel_scan :: "'lab heap \<Rightarrow> ('lab \<times> addr) list \<Rightarrow> IndexType \<Rightarrow> 'lab \<Rightarrow> 'lab" where
  "GetPixel_scan h [] idx bg = bg"
| "GetPixel_scan h (it # rest) idx bg =
     (if HasIndex (deref h (snd it)) idx then GetLabel (deref h (snd it))
      else GetPixel_scan h rest idx bg)"

definition GetPixel :: "'lab heap \<Rightarrow> 'lab LabelMap \<Rightarrow> IndexType \<Rightarrow> 'lab" where
  "GetPixel h lm idx =
     GetPixel_scan h (m_LabelObjectContainer lm) idx (m_BackgroundValue lm)"

fun GetLabelObject_scan :: "'lab heap \<Rightarrow> ('lab \<times> addr) list \<Rightarrow> IndexType \<Rightarrow> error + addr" where
  "GetLabelObject_scan h [] idx = Inl PositionNotFound"
| "GetLabelObject_scan h (it # rest) idx =
     (if HasIndex (deref h (snd it)) idx then Inr (snd it)
      else GetLabelObject_scan h rest idx)"

definition GetLabelObject_index :: "'lab heap \<Rightarrow> 'lab LabelMap \<Rightarrow> IndexType \<Rightarrow> error + addr" where
  "GetLabelObject_index h lm idx = GetLabelObject_scan h (m_LabelObjectContainer lm) idx"

definition GetNumberOfLabelObjects :: "'lab LabelMap \<Rightarrow> nat" where
  "GetNumberOfLabelObjects lm = length (m_LabelObjectContainer lm)"

definition GetLabels :: "'lab LabelMap \<Rightarrow> 'lab list" where
  "GetLabels lm = map fst (m_LabelObjectContainer lm)"

definition GetLabelObjects :: "'lab LabelMap \<Rightarrow> addr list" where
  "GetLabelObjects lm = map snd (m_LabelObjectContainer lm)"

subsubsection \<open>Adding and removing label objects\<close>

definition AddLabelObject ::
  "('lab::linorder) heap \<Rightarrow> 'lab LabelMap \<Rightarrow> addr option \<Rightarrow> ('lab state) result" where
  "AddLabelObject h lm labelObject =
     (case labelObject of
        None \<Rightarrow> Inl (NullArgument, (h, lm))
      | Some a \<Rightarrow>
          Inr (h, Modified (lm \<lparr> m_LabelObjectContainer :=
                 container_assign (m_LabelObjectContainer lm) (GetLabel (deref h a)) a \<rparr>)))"

definition RemoveLabel :: "'lab LabelMap \<Rightarrow> 'lab \<Rightarrow> ('lab LabelMap) result" where
  "RemoveLabel lm label =
     (if m_BackgroundValue lm = label then Inl (BackgroundLabelAccess, lm)
      else Inr (Modified (lm \<lparr> m_LabelObjectContainer :=
                  container_erase (m_LabelObjectContainer lm) label \<rparr>)))"

definition RemoveLabelObject ::
  "'lab heap \<Rightarrow> 'lab LabelMap \<Rightarrow> addr option \<Rightarrow> ('lab LabelMap) result" where
  "RemoveLabelObject h lm labelObject =
     (case labelObject of
        None \<Rightarrow> Inl (NullArgument, lm)
      | Some a \<Rightarrow> RemoveLabel lm (GetLabel (deref h a)))"

text \<open>
  The search loop of \<^verbatim>\<open>PushLabelObject\<close>: \<open>label\<close> runs beside the iterator. The result
  is the value of \<open>label\<close> when the loop is left and whether it was left by the
  \<^verbatim>\<open>break\<close>, that is, whether \<^verbatim>\<open>SetLabel(label)\<close> was called.
\<close>

fun PushLabelObject_search ::
  "('l::len word \<times> addr) list \<Rightarrow> 'l word \<Rightarrow> 'l word \<Rightarrow> 'l word \<times> bool" where
  "PushLabelObject_search [] label bg = (label, False)"
| "PushLabelObject_search (it # rest) label bg =
     (let label1 = (if label = bg then label + 1 else label)
      in if label1 \<noteq> fst it then (label1, True)
         else PushLabelObject_search rest (label1 + 1) bg)"

definition PushLabelObject ::
  "('l::len word) heap \<Rightarrow> ('l word) LabelMap \<Rightarrow> addr option \<Rightarrow> (('l word) state) result" where
  "PushLabelObject h lm labelObject =
     (case labelObject of
        None \<Rightarrow> Inl (NullArgument, (h, lm))
      | Some a \<Rightarrow>
          let c = m_LabelObjectContainer lm; bg = m_BackgroundValue lm in
          if c = [] then
            (if bg = 0
             then AddLabelObject (store h a (SetLabel (deref h a) 1)) lm labelObject
             else AddLabelObject (store h a (SetLabel (deref h a) 0)) lm labelObject)
          else
            let lastLabel = fst (last c); firstLabel = fst (hd c) in
            if lastLabel \<noteq> LabelType_max \<and> lastLabel + 1 \<noteq> bg
            then AddLabelObject (store h a (SetLabel (deref h a) (lastLabel + 1))) lm labelObject
            else if lastLabel \<noteq> LabelType_max \<and> lastLabel + 1 \<noteq> LabelType_max
                    \<and> lastLabel + 2 \<noteq> bg
            then AddLabelObject (store h a (SetLabel (deref h a) (lastLabel + 2))) lm labelObject
            else if firstLabel \<noteq> LabelType_NonpositiveMin \<and> firstLabel - 1 \<noteq> bg
            then AddLabelObject (store h a (SetLabel (deref h a) (firstLabel - 1))) lm labelObject
            else
              (case PushLabelObject_search c firstLabel bg of
                 (label, found) \<Rightarrow>
                   let h1 = (if found then store h a (SetLabel (deref h a) label) else h)
                   in if label = lastLabel then Inl (ContainerFull, (h1, lm))
                      else AddLabelObject h1 lm labelObject))"

subsubsection \<open>Pixels and lines\<close>

text \<open>
  An iterator argument is the entry it points to, \<open>None\<close> for \<^verbatim>\<open>end()\<close>. The
  overloads of the source are told apart by a suffix: \<open>AddPixel_it\<close> and
  \<open>RemovePixel_it\<close> take the iterator.
\<close>

definition AddPixel_it ::
  "('l::len word) heap \<Rightarrow> ('l word) LabelMap \<Rightarrow> ('l word \<times> addr) option \<Rightarrow> IndexType \<Rightarrow> 'l word
     \<Rightarrow> (('l word) state) result" where
  "AddPixel_it h lm it idx label =
     (if label = m_BackgroundValue lm then Inr (h, lm)
      else case it of
             Some e \<Rightarrow> Inr (store h (snd e) (AddIndex (deref h (snd e)) idx), Modified lm)
           | None \<Rightarrow>
               (case New h of
                  (labelObject, h0) \<Rightarrow>
                    let h1 = store h0 labelObject (SetLabel (deref h0 labelObject) label);
                        h2 = store h1 labelObject (AddIndex (deref h1 labelObject) idx)
                    in AddLabelObject h2 lm (Some labelObject)))"

definition AddPixel ::
  "('l::len word) heap \<Rightarrow> ('l word) LabelMap \<Rightarrow> IndexType \<Rightarrow> 'l word \<Rightarrow> (('l word) state) result" where
  "AddPixel h lm idx label =
     (if label = m_BackgroundValue lm then Inr (h, lm)
      else AddPixel_it h lm (container_find (m_LabelObjectContainer lm) label) idx label)"

definition RemovePixel_it ::
  "'lab heap \<Rightarrow> 'lab LabelMap \<Rightarrow> ('lab \<times> addr) option \<Rightarrow> IndexType \<Rightarrow> bool
     \<Rightarrow> ('lab state) result" where
  "RemovePixel_it h lm it idx iEmitModifiedEvent =
     (case it of
        None \<Rightarrow> Inr (h, lm)
      | Some e \<Rightarrow>
          (case RemoveIndex (deref h (snd e)) idx of
             (removed, ob) \<Rightarrow>
               let h1 = store h (snd e) ob in
               if removed then
                 (case (if Empty (deref h1 (snd e))
                        then RemoveLabelObject h1 lm (Some (snd e)) else Inr lm) of
                    Inl (err, lm1) \<Rightarrow> Inl (err, (h1, lm1))
                  | Inr lm1 \<Rightarrow> Inr (h1, if iEmitModifiedEvent then Modified lm1 else lm1))
               else Inr (h1, lm)))"

definition RemovePixel ::
  "'lab heap \<Rightarrow> 'lab LabelMap \<Rightarrow> IndexType \<Rightarrow> 'lab \<Rightarrow> ('lab state) result" where
  "RemovePixel h lm idx label =
     (if label = m_BackgroundValue lm then Inr (h, lm)
      else RemovePixel_it h lm (container_find (m_LabelObjectContainer lm) label) idx True)"

definition SetLine ::
  "('l::len word) heap \<Rightarrow> ('l word) LabelMap \<Rightarrow> IndexType \<Rightarrow> nat \<Rightarrow> 'l word
     \<Rightarrow> (('l word) state) result" where
  "SetLine h lm idx len label =
     (if label = m_BackgroundValue lm then Inr (h, lm)
      else case container_find (m_LabelObjectContainer lm) label of
             Some e \<Rightarrow> Inr (store h (snd e) (AddLine (deref h (snd e)) idx len), Modified lm)
           | None \<Rightarrow>
               (case New h of
                  (labelObject, h0) \<Rightarrow>
                    let h1 = store h0 labelObject (SetLabel (deref h0 labelObject) label);
                        h2 = store h1 labelObject (AddLine (deref h1 labelObject) idx len)
                    in AddLabelObject h2 lm (Some labelObject)))"

text \<open>
  The loop of \<^verbatim>\<open>SetPixel\<close>. \<open>rest\<close> holds the entries from the iterator \<open>it\<close> to the end
  of the container. In the first branch the iterator is advanced before the removal, so
  that it points to the head of \<open>rest\<close>, or to \<^verbatim>\<open>end()\<close> when \<open>rest\<close> is empty. The
  removal can erase an entry: the one stored under the label of the emptied object. When
  this is the entry the advanced iterator points to, the iterator is invalid and the next
  test of the loop has undefined behaviour. Otherwise the loop goes on over the entries
  that are still in the container. The result carries the flag \<open>newLabel\<close>.
\<close>

definition iterator_valid :: "('k \<times> 'v) list \<Rightarrow> ('k \<times> 'v) list \<Rightarrow> bool" where
  "iterator_valid c rest = (case rest of [] \<Rightarrow> True | it # _ \<Rightarrow> it \<in> set c)"

fun SetPixel_loop ::
  "('l::len word) heap \<Rightarrow> ('l word) LabelMap \<Rightarrow> ('l word \<times> addr) list \<Rightarrow> IndexType \<Rightarrow> 'l word
     \<Rightarrow> bool \<Rightarrow> (('l word) state \<times> bool) result" where
  "SetPixel_loop h lm [] idx iLabel newLabel = Inr ((h, lm), newLabel)"
| "SetPixel_loop h lm (it # rest) idx iLabel newLabel =
     (if fst it \<noteq> iLabel then
        (case RemovePixel_it h lm (Some it) idx (iLabel = m_BackgroundValue lm) of
           Inl (err, s) \<Rightarrow> Inl (err, (s, newLabel))
         | Inr (h1, lm1) \<Rightarrow>
             if iterator_valid (m_LabelObjectContainer lm1) rest
             then SetPixel_loop h1 lm1
                    (filter (\<lambda>e. e \<in> set (m_LabelObjectContainer lm1)) rest) idx iLabel newLabel
             else Inl (UndefinedBehaviour, ((h1, lm1), newLabel)))
      else
        (case AddPixel_it h lm (Some it) idx iLabel of
           Inl (err, s) \<Rightarrow> Inl (err, (s, False))
         | Inr (h1, lm1) \<Rightarrow> SetPixel_loop h1 lm1 rest idx iLabel False))"

definition SetPixel ::
  "('l::len word) heap \<Rightarrow> ('l word) LabelMap \<Rightarrow> IndexType \<Rightarrow> 'l word \<Rightarrow> (('l word) state) result" where
  "SetPixel h lm idx iLabel =
     (case SetPixel_loop h lm (m_LabelObjectContainer lm) idx iLabel True of
        Inl (err, (s, newLabel)) \<Rightarrow> Inl (err, s)
      | Inr ((h1, lm1), newLabel) \<Rightarrow>
          if newLabel then AddPixel_it h1 lm1 None idx iLabel else Inr (h1, lm1))"

subsection \<open>Sequences of calls\<close>

text \<open>
  The mutating calls of a label map, as a caller issues them one after the other. A call
  that throws leaves the state of the throw behind, and the sequence goes on from there.
\<close>

datatype 'lab call =
    CallAddLabelObject "addr option"
  | CallPushLabelObject "addr option"
  | CallAddPixel IndexType 'lab
  | CallSetPixel IndexType 'lab
  | CallSetLine IndexType nat 'lab
  | CallRemovePixel IndexType 'lab
  | CallRemoveLabel 'lab
  | CallGraft "'lab DataObject option"
  | CallClearLabels

definition with_heap :: "'lab heap \<Rightarrow> ('lab LabelMap) result \<Rightarrow> ('lab state) result" where
  "with_heap h r = (case r of Inl (err, lm) \<Rightarrow> Inl (err, (h, lm)) | Inr lm \<Rightarrow> Inr (h, lm))"

fun perform :: "('l::len word) state \<Rightarrow> ('l word) call \<Rightarrow> (('l word) state) result" where
  "perform (h, lm) (CallAddLabelObject labelObject) = AddLabelObject h lm labelObject"
| "perform (h, lm) (CallPushLabelObject labelObject) = PushLabelObject h lm labelObject"
| "perform (h, lm) (CallAddPixel idx label) = AddPixel h lm idx label"
| "perform (h, lm) (CallSetPixel idx label) = SetPixel h lm idx label"
| "perform (h, lm) (CallSetLine idx len label) = SetLine h lm idx len label"
| "perform (h, lm) (CallRemovePixel idx label) = RemovePixel h lm idx label"
| "perform (h, lm) (CallRemoveLabel label) = with_heap h (RemoveLabel lm label)"
| "perform (h, lm) (CallGraft data) = with_heap h (Graft lm data)"
| "perform (h, lm) CallClearLabels = Inr (h, ClearLabels lm)"

definition state_after :: "'s result \<Rightarrow> 's" where
  "state_after r = (case r of Inl (err, s) \<Rightarrow> s | Inr s \<Rightarrow> s)"

fun run :: "('l::len word) state \<Rightarrow> ('l word) call list \<Rightarrow> ('l word) state" where
  "run s [] = s"
| "run s (c # cs) = run (state_after (perform s c)) cs"

text \<open>
  \<open>well_defined s cs\<close>: no call of the sequence \<open>cs\<close>, issued from \<open>s\<close>, runs into
  undefined behaviour. Only then do the states of \<open>run s cs\<close> speak about the program.
\<close>

fun is_undefined :: "'s result \<Rightarrow> bool" where
  "is_undefined (Inl (err, s)) = (err = UndefinedBehaviour)"
| "is_undefined (Inr s) = False"

fun well_defined :: "('l::len word) state \<Rightarrow> ('l word) call list \<Rightarrow> bool" where
  "well_defined s [] = True"
| "well_defined s (c # cs) =
     (\<not> is_undefined (perform s c) \<and> well_defined (state_after (perform s c)) cs)"

subsection \<open>Properties of states\<close>

text \<open>
  \<open>push_assigns h lm a l\<close>: pushing the object at \<open>a\<close> succeeds, gives it the label
  \<open>l\<close> and stores it under \<open>l\<close>.
\<close>

definition push_assigns ::
  "('l::len word) heap \<Rightarrow> ('l word) LabelMap \<Rightarrow> addr \<Rightarrow> 'l word \<Rightarrow> bool" where
  "push_assigns h lm a l =
     (PushLabelObject h lm (Some a) =
        Inr (store h a (SetLabel (deref h a) l),
             Modified (lm \<lparr> m_LabelObjectContainer :=
                container_assign (m_LabelObjectContainer lm) l a \<rparr>)))"

text \<open>The entries whose object owns the position \<open>p\<close>, in container order.\<close>

definition owners :: "'lab heap \<Rightarrow> 'lab LabelMap \<Rightarrow> IndexType \<Rightarrow> ('lab \<times> addr) list" where
  "owners h lm p = filter (\<lambda>e. HasIndex (deref h (snd e)) p) (m_LabelObjectContainer lm)"

text \<open>I1: the background value is no key of the container.\<close>

definition background_excluded :: "'lab LabelMap \<Rightarrow> bool" where
  "background_excluded lm = (m_BackgroundValue lm \<notin> keys (m_LabelObjectContainer lm))"

text \<open>I4: no stored label object is empty.\<close>

definition no_empty_object :: "'lab heap \<Rightarrow> 'lab LabelMap \<Rightarrow> bool" where
  "no_empty_object h lm =
     list_all (\<lambda>e. \<not> Empty (deref h (snd e))) (m_LabelObjectContainer lm)"

text \<open>
  A label map is well formed when its container is in ascending key order, every entry
  is stored under the label its object reports (I2), no object is stored twice, and every
  stored object has been allocated.
\<close>

definition well_formed :: "('lab::linorder) heap \<Rightarrow> 'lab LabelMap \<Rightarrow> bool" where
  "well_formed h lm =
     (ordered (m_LabelObjectContainer lm)
      \<and> list_all (\<lambda>e. GetLabel (deref h (snd e)) = fst e) (m_LabelObjectContainer lm)
      \<and> distinct (map snd (m_LabelObjectContainer lm))
      \<and> list_all (\<lambda>e. snd e < next_free h) (m_LabelObjectContainer lm))"

text \<open>
  \<open>keys_within lm K lm'\<close>: from \<open>lm\<close> to \<open>lm'\<close> the background value is unchanged and
  the container has gained no key outside \<open>K\<close>.
\<close>

definition keys_within :: "'lab LabelMap \<Rightarrow> 'lab set \<Rightarrow> 'lab LabelMap \<Rightarrow> bool" where
  "keys_within lm K lm' =
     (m_BackgroundValue lm' = m_BackgroundValue lm
      \<and> keys (m_LabelObjectContainer lm') \<subseteq> keys (m_LabelObjectContainer lm) \<union> K)"

text \<open>
  \<open>PushLabelObject_exhausted lm\<close>: a push into \<open>lm\<close> takes none of the first three
  allocation rules and its search loop runs to the end of the container without the
  \<^verbatim>\<open>break\<close>.
\<close>

definition PushLabelObject_exhausted :: "('l::len word) LabelMap \<Rightarrow> bool" where
  "PushLabelObject_exhausted lm =
     (let c = m_LabelObjectContainer lm; bg = m_BackgroundValue lm in
      if c = [] then False
      else
        let lastLabel = fst (last c); firstLabel = fst (hd c) in
        \<not> (lastLabel \<noteq> LabelType_max \<and> lastLabel + 1 \<noteq> bg)
        \<and> \<not> (lastLabel \<noteq> LabelType_max \<and> lastLabel + 1 \<noteq> LabelType_max
                \<and> lastLabel + 2 \<noteq> bg)
        \<and> \<not> (firstLabel \<noteq> LabelType_NonpositiveMin \<and> firstLabel - 1 \<noteq> bg)
        \<and> \<not> snd (PushLabelObject_search c firstLabel bg))"

text \<open>
  Calls that hand objects over properly. A pointer of the program always points to a
  constructed object: its address is below \<open>next_free\<close>. \<open>PushLabelObject\<close> relabels the
  object it is given, so the object must not be stored in the container already. The
  source of a \<open>Graft\<close> must be well formed itself. All other calls are unrestricted.
\<close>

fun proper_handover :: "('l::len word) state \<Rightarrow> ('l word) call \<Rightarrow> bool" where
  "proper_handover (h, lm) (CallAddLabelObject (Some a)) = (a < next_free h)"
| "proper_handover (h, lm) (CallPushLabelObject (Some a)) =
     (a < next_free h \<and> a \<notin> snd ` set (m_LabelObjectContainer lm))"
| "proper_handover (h, lm) (CallGraft (Some (LabelMapData imgData))) = well_formed h imgData"
| "proper_handover (h, lm) c = True"

text \<open>
  Calls that cannot bring the background value into the container by their arguments:
  \<open>AddLabelObject\<close> with an object whose label is not the background value, \<open>Graft\<close>
  from a source that excludes its own background value, \<open>PushLabelObject\<close> when a label
  is assigned. All other calls are unrestricted.
\<close>

fun keeps_background_out :: "('l::len word) state \<Rightarrow> ('l word) call \<Rightarrow> bool" where
  "keeps_background_out (h, lm) (CallAddLabelObject (Some a)) =
     (GetLabel (deref h a) \<noteq> m_BackgroundValue lm)"
| "keeps_background_out (h, lm) (CallPushLabelObject (Some a)) =
     (\<not> PushLabelObject_exhausted lm)"
| "keeps_background_out (h, lm) (CallGraft (Some (LabelMapData imgData))) =
     background_excluded imgData"
| "keeps_background_out (h, lm) c = True"

definition respects_background :: "('l::len word) state \<Rightarrow> ('l word) call \<Rightarrow> bool" where
  "respects_background s c = (proper_handover s c \<and> keeps_background_out s c)"

text \<open>
  \<open>admissible ok s cs\<close>: every call of the sequence \<open>cs\<close>, issued from \<open>s\<close>, satisfies
  \<open>ok\<close> in the state it is issued in.
\<close>

fun admissible ::
  "(('l::len word) state \<Rightarrow> ('l word) call \<Rightarrow> bool) \<Rightarrow> ('l word) state \<Rightarrow> ('l word) call list
     \<Rightarrow> bool" where
  "admissible ok s [] = True"
| "admissible ok s (c # cs) = (ok s c \<and> admissible ok (state_after (perform s c)) cs)"

text \<open>
  A label map is consistent when it is well formed, excludes the background value (I1)
  and holds no empty object (I4).
\<close>

definition consistent :: "('lab::linorder) heap \<Rightarrow> 'lab LabelMap \<Rightarrow> bool" where
  "consistent h lm = (well_formed h lm \<and> background_excluded lm \<and> no_empty_object h lm)"

text \<open>
  An object the caller may hand over without breaking consistency: allocated, not yet
  stored in the container, and not empty.
\<close>

definition fresh_object :: "'lab heap \<Rightarrow> 'lab LabelMap \<Rightarrow> addr \<Rightarrow> bool" where
  "fresh_object h lm a =
     (a < next_free h \<and> a \<notin> snd ` set (m_LabelObjectContainer lm) \<and> \<not> Empty (deref h a))"

text \<open>
  Calls that keep a label map consistent by their arguments. The pixel-level calls
  \<open>AddPixel\<close>, \<open>SetPixel\<close>, \<open>RemovePixel\<close> and the calls \<open>RemoveLabel\<close>, \<open>ClearLabels\<close> are
  unrestricted. A line must have a positive length and a position of at least one
  coordinate. An object given to \<open>AddLabelObject\<close> or \<open>PushLabelObject\<close> must be fresh,
  with a label other than the background value, respectively with a label assigned by the
  push. The source of a \<open>Graft\<close> must be consistent itself.
\<close>

fun consistent_call :: "('l::len word) state \<Rightarrow> ('l word) call \<Rightarrow> bool" where
  "consistent_call (h, lm) (CallAddLabelObject (Some a)) =
     (fresh_object h lm a \<and> GetLabel (deref h a) \<noteq> m_BackgroundValue lm)"
| "consistent_call (h, lm) (CallPushLabelObject (Some a)) =
     (fresh_object h lm a \<and> \<not> PushLabelObject_exhausted lm)"
| "consistent_call (h, lm) (CallSetLine idx len label) = (idx \<noteq> [] \<and> 0 < len)"
| "consistent_call (h, lm) (CallGraft (Some (LabelMapData imgData))) = consistent h imgData"
| "consistent_call (h, lm) c = True"

text \<open>
  \<open>repainted idx h lm h' lm'\<close>: from \<open>(h, lm)\<close> to \<open>(h', lm')\<close> no entry has been added
  to the container, and the objects of the remaining entries own the same positions as
  before, \<open>idx\<close> apart.
\<close>

definition repainted ::
  "IndexType \<Rightarrow> 'lab heap \<Rightarrow> 'lab LabelMap \<Rightarrow> 'lab heap \<Rightarrow> 'lab LabelMap \<Rightarrow> bool" where
  "repainted idx h lm h' lm' =
     (set (m_LabelObjectContainer lm') \<subseteq> set (m_LabelObjectContainer lm)
      \<and> list_all (\<lambda>e. m_Region (deref h' (snd e)) - {idx} = m_Region (deref h (snd e)) - {idx})
           (m_LabelObjectContainer lm'))"

subsection \<open>Example states\<close>

text \<open>
  A heap of \<^verbatim>\<open>unsigned char\<close> label objects in which the caller has constructed one
  object and nothing else: every cell holds a default-constructed object.
\<close>

definition heap0 :: "(8 word) heap" where
  "heap0 = \<lparr> cells = (\<lambda>a. LabelObject_New), next_free = 1 \<rparr>"

text \<open>The same heap after the caller has set the label of its object to 1.\<close>

definition heap1 :: "(8 word) heap" where
  "heap1 = store heap0 0 (SetLabel (deref heap0 0) 1)"

text \<open>A label map that holds the object at address 0 under label 1.\<close>

definition lm_one :: "(8 word) LabelMap" where
  "lm_one = \<lparr> m_BackgroundValue = 0, m_LabelObjectContainer = [(1, 0)], m_MTime = 1 \<rparr>"

text \<open>
  A label map with background value 254 that holds one object, under label 255, and the
  heap it lives in: address 0 holds that object, address 1 a default-constructed object
  of the caller.
\<close>

definition heap_top :: "(8 word) heap" where
  "heap_top =
     \<lparr> cells = (\<lambda>a. LabelObject_New)(0 := \<lparr> m_Label = 255, m_Region = {[0, 0]} \<rparr>),
       next_free = 2 \<rparr>"

definition lm_top :: "(8 word) LabelMap" where
  "lm_top = \<lparr> m_BackgroundValue = 254, m_LabelObjectContainer = [(255, 0)], m_MTime = 2 \<rparr>"

text \<open>
  A sequence of calls on a fresh label map: the caller pushes its object, paints the
  position \<open>(0,0)\<close> with label 5, repaints it with label 3, and removes a label that is
  not there.
\<close>

definition calls_example :: "(8 word) call list" where
  "calls_example =
     [CallPushLabelObject (Some 0), CallAddPixel [0, 0] 5, CallSetPixel [0, 0] 3,
      CallRemoveLabel 7]"

text \<open>Three \<open>SetPixel\<close> calls: paint \<open>(0,0)\<close> with 5, repaint it with 3, paint \<open>(1,0)\<close> with 3.\<close>

definition paint_example :: "(IndexType \<times> 8 word) list" where
  "paint_example = [([0, 0], 5), ([0, 0], 3), ([1, 0], 3)]"

text \<open>The calls of a sequence of \<open>SetPixel(p, L)\<close>.\<close>

definition SetPixel_calls :: "(IndexType \<times> 'lab) list \<Rightarrow> 'lab call list" where
  "SetPixel_calls ps = map (\<lambda>pl. CallSetPixel (fst pl) (snd pl)) ps"

text \<open>
  Pixel-level calls on a fresh label map: paint \<open>(0,0)\<close> with 5, repaint it with 3,
  remove a label that is not there.
\<close>

definition pixel_calls_example :: "(8 word) call list" where
  "pixel_calls_example = [CallAddPixel [0, 0] 5, CallSetPixel [0, 0] 3, CallRemoveLabel 7]"

text \<open>The heap \<open>heap0\<close> after the caller has added the position \<open>(5,5)\<close> to its object.\<close>

definition heap2 :: "(8 word) heap" where
  "heap2 = store heap0 0 (AddIndex (deref heap0 0) [5, 5])"

section \<open>Properties\<close>

subsection \<open>The container\<close>

lemma container_find_assign:
  "container_find (container_assign c k v) k = Some (k, v)"
  by (induction c) (auto simp: container_find_def)

lemma container_find_map_of:
  "container_find c k = (case map_of c k of None \<Rightarrow> None | Some v \<Rightarrow> Some (k, v))"
  by (induction c) (auto simp: container_find_def)

lemma map_of_None_keys: "map_of c k = None \<longleftrightarrow> k \<notin> keys c"
  by (simp add: keys_def map_of_eq_None_iff)

lemma container_erase_absent: "k \<notin> keys c \<Longrightarrow> container_erase c k = c"
  by (induction c) (auto simp: container_erase_def keys_def)

lemma ordered_last_Max:
  "ordered c \<Longrightarrow> c \<noteq> [] \<Longrightarrow> fst (last c) = Max (keys c)"
proof (induction c)
  case Nil
  then show ?case by simp
next
  case (Cons e es)
  show ?case
  proof (cases "es = []")
    case True
    then show ?thesis by (simp add: keys_def)
  next
    case False
    from Cons.prems have o: "ordered es" and lt: "\<forall>x\<in>set es. fst e < fst x"
      by (auto simp: ordered_def)
    from Cons.IH[OF o False] have m: "fst (last es) = Max (keys es)" .
    have fin: "finite (keys es)" "keys es \<noteq> {}" using False by (auto simp: keys_def)
    have "last es \<in> set es" using False by simp
    then have "fst e < fst (last es)" using lt by blast
    then have "max (fst e) (Max (keys es)) = Max (keys es)" using m by simp
    moreover have "keys (e # es) = insert (fst e) (keys es)" by (simp add: keys_def)
    ultimately show ?thesis using False m fin by simp
  qed
qed

lemma LabelMap_ctor_eq:
  "LabelMap_ctor = \<lparr> m_BackgroundValue = 0, m_LabelObjectContainer = [], m_MTime = 0 \<rparr>"
  by (simp add: LabelMap_ctor_def Initialize_def ClearLabels_def)

subsection \<open>Label allocation of PushLabelObject\<close>

lemma AddLabelObject_Some:
  "AddLabelObject h lm (Some a) =
     Inr (h, Modified (lm \<lparr> m_LabelObjectContainer :=
            container_assign (m_LabelObjectContainer lm) (GetLabel (deref h a)) a \<rparr>))"
  by (simp add: AddLabelObject_def)

lemma GetLabel_store_SetLabel:
  "GetLabel (deref (store h a (SetLabel ob l)) a) = l"
  by (simp add: GetLabel_def deref_def store_def SetLabel_def)

text \<open>
  C1. Pushed into an empty container, a label object gets label 1 when the background
  value is 0 and label 0 otherwise. Pushed into a non-empty container whose largest key
  \<open>last\<close> is not the maximum of the label type and has \<open>last + 1\<close> different from the
  background value, it gets \<open>last + 1\<close>. In both cases the call succeeds and the object
  is stored under that label.
\<close>

theorem PushLabelObject_priority:
  fixes lm :: "('l::len word) LabelMap"
  shows "(m_LabelObjectContainer lm = [] \<longrightarrow>
            push_assigns h lm a (if m_BackgroundValue lm = 0 then 1 else 0))
       \<and> (m_LabelObjectContainer lm \<noteq> [] \<and> ordered (m_LabelObjectContainer lm)
            \<and> Max (keys (m_LabelObjectContainer lm)) \<noteq> LabelType_max
            \<and> Max (keys (m_LabelObjectContainer lm)) + 1 \<noteq> m_BackgroundValue lm \<longrightarrow>
            push_assigns h lm a (Max (keys (m_LabelObjectContainer lm)) + 1))"
proof (intro conjI impI)
  assume "m_LabelObjectContainer lm = []"
  then show "push_assigns h lm a (if m_BackgroundValue lm = 0 then 1 else 0)"
    by (simp add: push_assigns_def PushLabelObject_def AddLabelObject_Some GetLabel_store_SetLabel)
next
  assume a: "m_LabelObjectContainer lm \<noteq> [] \<and> ordered (m_LabelObjectContainer lm)
            \<and> Max (keys (m_LabelObjectContainer lm)) \<noteq> LabelType_max
            \<and> Max (keys (m_LabelObjectContainer lm)) + 1 \<noteq> m_BackgroundValue lm"
  then have l: "fst (last (m_LabelObjectContainer lm)) = Max (keys (m_LabelObjectContainer lm))"
    by (simp add: ordered_last_Max)
  show "push_assigns h lm a (Max (keys (m_LabelObjectContainer lm)) + 1)"
    using a unfolding l[symmetric]
    by (simp add: push_assigns_def PushLabelObject_def AddLabelObject_Some
        GetLabel_store_SetLabel Let_def)
qed

text \<open>
  The two scenarios of the specification: the empty map with background 0 assigns 1, and
  the map that holds only label 1 assigns 2.
\<close>

theorem PushLabelObject_priority_witness:
  "m_LabelObjectContainer (LabelMap_ctor :: (8 word) LabelMap) = []
   \<and> push_assigns heap0 LabelMap_ctor 0 1
   \<and> m_LabelObjectContainer lm_one \<noteq> [] \<and> ordered (m_LabelObjectContainer lm_one)
   \<and> Max (keys (m_LabelObjectContainer lm_one)) \<noteq> LabelType_max
   \<and> Max (keys (m_LabelObjectContainer lm_one)) + 1 \<noteq> m_BackgroundValue lm_one
   \<and> push_assigns heap1 lm_one 1 2"
proof -
  have e: "m_LabelObjectContainer (LabelMap_ctor :: (8 word) LabelMap) = []"
          "m_BackgroundValue (LabelMap_ctor :: (8 word) LabelMap) = 0"
    by (simp_all add: LabelMap_ctor_eq)
  have m: "Max (keys (m_LabelObjectContainer lm_one)) = 1"
    by (simp add: lm_one_def keys_def)
  have p: "m_LabelObjectContainer lm_one \<noteq> [] \<and> ordered (m_LabelObjectContainer lm_one)
       \<and> Max (keys (m_LabelObjectContainer lm_one)) \<noteq> LabelType_max
       \<and> Max (keys (m_LabelObjectContainer lm_one)) + 1 \<noteq> m_BackgroundValue lm_one"
    unfolding m by (simp add: lm_one_def ordered_def LabelType_max_def)
  from PushLabelObject_priority[of "LabelMap_ctor :: (8 word) LabelMap" heap0 0] e
  have "push_assigns heap0 LabelMap_ctor 0 1" by simp
  moreover from PushLabelObject_priority[of lm_one heap1 1] p m
  have "push_assigns heap1 lm_one 1 2" by simp
  ultimately show ?thesis using e p by simp
qed

subsection \<open>Queries by label and by position\<close>

text \<open>
  C7. \<open>GetLabelObject(L)\<close> fails with \<open>BackgroundLabelAccess\<close> exactly when \<open>L\<close> is the
  background value, fails with \<open>LabelNotFound\<close> exactly when \<open>L\<close> is neither the
  background value nor a key of the container, and otherwise returns the object stored
  under \<open>L\<close>.
\<close>

theorem GetLabelObject_label_cases:
  "(GetLabelObject_label lm L = Inl BackgroundLabelAccess \<longleftrightarrow> L = m_BackgroundValue lm)
   \<and> (GetLabelObject_label lm L = Inl LabelNotFound \<longleftrightarrow>
        L \<noteq> m_BackgroundValue lm \<and> L \<notin> keys (m_LabelObjectContainer lm))
   \<and> (L \<noteq> m_BackgroundValue lm \<and> L \<in> keys (m_LabelObjectContainer lm) \<longrightarrow>
        (\<exists>a. GetLabelObject_label lm L = Inr a \<and> map_of (m_LabelObjectContainer lm) L = Some a))"
  using map_of_None_keys[of "m_LabelObjectContainer lm" L]
  by (auto simp: GetLabelObject_label_def container_find_map_of split: option.splits)

theorem GetLabelObject_label_cases_witness:
  "GetLabelObject_label lm_one 0 = Inl BackgroundLabelAccess
   \<and> GetLabelObject_label lm_one 7 = Inl LabelNotFound
   \<and> (1 \<noteq> m_BackgroundValue lm_one \<and> 1 \<in> keys (m_LabelObjectContainer lm_one))
   \<and> GetLabelObject_label lm_one 1 = Inr 0"
  using GetLabelObject_label_cases[of lm_one 0] GetLabelObject_label_cases[of lm_one 7]
    GetLabelObject_label_cases[of lm_one 1]
  by (auto simp: lm_one_def keys_def)

lemma GetLabelObject_scan_find:
  "GetLabelObject_scan h c idx =
     (case List.find (\<lambda>e. HasIndex (deref h (snd e)) idx) c of
        None \<Rightarrow> Inl PositionNotFound | Some e \<Rightarrow> Inr (snd e))"
  by (induction c) auto

lemma ordered_nth_less:
  "ordered c \<Longrightarrow> i < j \<Longrightarrow> j < length c \<Longrightarrow> fst (c ! i) < fst (c ! j)"
  unfolding ordered_def using sorted_wrt_nth_less[of "(<)" "map fst c" i j] by simp

text \<open>
  C9. \<open>GetLabelObject(p)\<close> fails with \<open>PositionNotFound\<close> when no stored object owns
  \<open>p\<close>, whatever the background value is. Otherwise it returns the first stored object
  that owns \<open>p\<close>: first in container order, which in an ordered container is the object
  that owns \<open>p\<close> under the smallest label. The result is an object or the failure, never
  a label.
\<close>

theorem GetLabelObject_index_first:
  "((\<forall>e \<in> set (m_LabelObjectContainer lm). \<not> HasIndex (deref h (snd e)) p) \<longrightarrow>
       GetLabelObject_index h lm p = Inl PositionNotFound)
   \<and> (\<forall>i < length (m_LabelObjectContainer lm).
        HasIndex (deref h (snd (m_LabelObjectContainer lm ! i))) p
        \<and> (\<forall>j < i. \<not> HasIndex (deref h (snd (m_LabelObjectContainer lm ! j))) p) \<longrightarrow>
        GetLabelObject_index h lm p = Inr (snd (m_LabelObjectContainer lm ! i)))
   \<and> (\<forall>e \<in> set (m_LabelObjectContainer lm).
        ordered (m_LabelObjectContainer lm) \<and> HasIndex (deref h (snd e)) p
        \<and> (\<forall>e' \<in> set (m_LabelObjectContainer lm).
              fst e' < fst e \<longrightarrow> \<not> HasIndex (deref h (snd e')) p) \<longrightarrow>
        GetLabelObject_index h lm p = Inr (snd e))"
proof (intro conjI impI allI ballI)
  assume "\<forall>e \<in> set (m_LabelObjectContainer lm). \<not> HasIndex (deref h (snd e)) p"
  then have "List.find (\<lambda>e. HasIndex (deref h (snd e)) p) (m_LabelObjectContainer lm) = None"
    by (force simp: find_None_iff)
  then show "GetLabelObject_index h lm p = Inl PositionNotFound"
    by (simp add: GetLabelObject_index_def GetLabelObject_scan_find)
next
  fix i
  assume i: "i < length (m_LabelObjectContainer lm)"
    and "HasIndex (deref h (snd (m_LabelObjectContainer lm ! i))) p
        \<and> (\<forall>j < i. \<not> HasIndex (deref h (snd (m_LabelObjectContainer lm ! j))) p)"
  then have "List.find (\<lambda>e. HasIndex (deref h (snd e)) p) (m_LabelObjectContainer lm)
               = Some (m_LabelObjectContainer lm ! i)"
    by (auto simp: find_Some_iff)
  then show "GetLabelObject_index h lm p = Inr (snd (m_LabelObjectContainer lm ! i))"
    by (simp add: GetLabelObject_index_def GetLabelObject_scan_find)
next
  fix e
  assume e: "e \<in> set (m_LabelObjectContainer lm)"
    and a: "ordered (m_LabelObjectContainer lm) \<and> HasIndex (deref h (snd e)) p
        \<and> (\<forall>e' \<in> set (m_LabelObjectContainer lm).
              fst e' < fst e \<longrightarrow> \<not> HasIndex (deref h (snd e')) p)"
  from e obtain i where i: "i < length (m_LabelObjectContainer lm)"
    "m_LabelObjectContainer lm ! i = e"
    by (auto simp: in_set_conv_nth)
  have "\<forall>j < i. \<not> HasIndex (deref h (snd (m_LabelObjectContainer lm ! j))) p"
  proof (intro allI impI)
    fix j assume j: "j < i"
    then have "fst (m_LabelObjectContainer lm ! j) < fst e"
      using ordered_nth_less[of "m_LabelObjectContainer lm" j i] a i by simp
    moreover have "m_LabelObjectContainer lm ! j \<in> set (m_LabelObjectContainer lm)"
      using j i by simp
    ultimately show "\<not> HasIndex (deref h (snd (m_LabelObjectContainer lm ! j))) p"
      using a by blast
  qed
  then have "List.find (\<lambda>e. HasIndex (deref h (snd e)) p) (m_LabelObjectContainer lm)
               = Some (m_LabelObjectContainer lm ! i)"
    using i a by (auto simp: find_Some_iff)
  then show "GetLabelObject_index h lm p = Inr (snd e)"
    using i by (simp add: GetLabelObject_index_def GetLabelObject_scan_find)
qed

text \<open>
  In \<open>heap1\<close> the object at address 0 owns nothing, so the position \<open>(0,0)\<close> is a
  background position of \<open>lm_one\<close>; once the object owns it, the query returns the object.
\<close>

theorem GetLabelObject_index_first_witness:
  "list_all (\<lambda>e. \<not> HasIndex (deref heap1 (snd e)) [0, 0]) (m_LabelObjectContainer lm_one)
   \<and> GetLabelObject_index heap1 lm_one [0, 0] = Inl PositionNotFound
   \<and> (0 < length (m_LabelObjectContainer lm_one)
        \<and> HasIndex (deref (store heap1 0 (AddIndex (deref heap1 0) [0, 0]))
                      (snd (m_LabelObjectContainer lm_one ! 0))) [0, 0])
   \<and> GetLabelObject_index (store heap1 0 (AddIndex (deref heap1 0) [0, 0])) lm_one [0, 0] = Inr 0
   \<and> ordered (m_LabelObjectContainer lm_one)
   \<and> list_all (\<lambda>e'. fst e' < 1 \<longrightarrow>
                 \<not> HasIndex (deref (store heap1 0 (AddIndex (deref heap1 0) [0, 0])) (snd e')) [0, 0])
        (m_LabelObjectContainer lm_one)"
proof -
  have n: "\<forall>e \<in> set (m_LabelObjectContainer lm_one). \<not> HasIndex (deref heap1 (snd e)) [0, 0]"
    by (simp add: lm_one_def heap1_def heap0_def store_def deref_def HasIndex_def
        SetLabel_def LabelObject_New_def)
  have y: "0 < length (m_LabelObjectContainer lm_one)
        \<and> HasIndex (deref (store heap1 0 (AddIndex (deref heap1 0) [0, 0]))
                      (snd (m_LabelObjectContainer lm_one ! 0))) [0, 0]"
    by (simp add: lm_one_def store_def deref_def HasIndex_def AddIndex_def)
  have s: "snd (m_LabelObjectContainer lm_one ! 0) = 0"
    by (simp add: lm_one_def)
  from GetLabelObject_index_first[of lm_one heap1 "[0, 0]"] n
  have "GetLabelObject_index heap1 lm_one [0, 0] = Inl PositionNotFound" by blast
  moreover
  from GetLabelObject_index_first[of lm_one "store heap1 0 (AddIndex (deref heap1 0) [0, 0])" "[0, 0]"] y
  have "GetLabelObject_index (store heap1 0 (AddIndex (deref heap1 0) [0, 0])) lm_one [0, 0]
          = Inr (snd (m_LabelObjectContainer lm_one ! 0))"
    by simp
  moreover have "ordered (m_LabelObjectContainer lm_one)
   \<and> list_all (\<lambda>e'. fst e' < 1 \<longrightarrow>
                 \<not> HasIndex (deref (store heap1 0 (AddIndex (deref heap1 0) [0, 0])) (snd e')) [0, 0])
        (m_LabelObjectContainer lm_one)"
    by (simp add: lm_one_def ordered_def)
  ultimately show ?thesis using n y s by (simp add: list_all_iff)
qed

subsection \<open>Graft\<close>

text \<open>
  C8. For label maps \<open>A\<close> and \<open>B\<close>, \<open>A.Graft(B)\<close> succeeds, and afterwards the container
  of \<open>A\<close> is the container of \<open>B\<close>: the same labels bound to the same addresses, so the
  label objects are shared and none is copied (\<open>Graft\<close> does not touch the heap). The
  background value of \<open>A\<close> is that of \<open>B\<close>.
\<close>

theorem Graft_copies_container_and_background:
  "\<exists>A'. Graft A (Some (LabelMapData B)) = Inr A'
      \<and> m_LabelObjectContainer A' = m_LabelObjectContainer B
      \<and> m_BackgroundValue A' = m_BackgroundValue B
      \<and> GetLabels A' = GetLabels B
      \<and> GetLabelObjects A' = GetLabelObjects B"
  by (simp add: Graft_def GetLabels_def GetLabelObjects_def)

theorem Graft_copies_container_and_background_witness:
  "Graft (LabelMap_ctor :: (8 word) LabelMap) (Some (LabelMapData lm_one)) =
     Inr \<lparr> m_BackgroundValue = 0, m_LabelObjectContainer = [(1, 0)], m_MTime = 0 \<rparr>"
  using Graft_copies_container_and_background[of "LabelMap_ctor :: (8 word) LabelMap" lm_one]
  by (auto simp: LabelMap_ctor_eq lm_one_def Graft_def)

subsection \<open>RemoveLabel\<close>

text \<open>
  C10. For a label \<open>L\<close> other than the background value, \<open>RemoveLabel(L)\<close> does not fail,
  also when \<open>L\<close> is no key of the container; in that case the container is left as it is.
  \<^verbatim>\<open>Modified()\<close> is called once in either case.
\<close>

theorem RemoveLabel_never_fails_off_background:
  "L \<noteq> m_BackgroundValue lm \<longrightarrow>
     (\<exists>lm'. RemoveLabel lm L = Inr lm'
        \<and> m_MTime lm' = Suc (m_MTime lm)
        \<and> m_BackgroundValue lm' = m_BackgroundValue lm
        \<and> (L \<notin> keys (m_LabelObjectContainer lm) \<longrightarrow>
              m_LabelObjectContainer lm' = m_LabelObjectContainer lm))"
  by (auto simp: RemoveLabel_def Modified_def container_erase_absent)

theorem RemoveLabel_never_fails_off_background_witness:
  "7 \<noteq> m_BackgroundValue lm_one \<and> 7 \<notin> keys (m_LabelObjectContainer lm_one)
   \<and> RemoveLabel lm_one 7 =
       Inr \<lparr> m_BackgroundValue = 0, m_LabelObjectContainer = [(1, 0)], m_MTime = 2 \<rparr>"
  using RemoveLabel_never_fails_off_background[of 7 lm_one]
  by (auto simp: lm_one_def keys_def)

subsection \<open>The search loop of PushLabelObject and the full container\<close>

lemma search_found_not_bg:
  "PushLabelObject_search c l bg = (l', True) \<Longrightarrow> l' \<noteq> bg"
  by (induction c arbitrary: l) (auto simp: Let_def split: if_splits)

lemma search_never_last:
  fixes l :: "'l::len word"
  assumes "ordered c" "bg \<notin> keys c" "c \<noteq> []" "l \<le> fst (hd c)"
  shows "fst (PushLabelObject_search c l bg) \<noteq> fst (last c)"
  using assms
proof (induction c arbitrary: l)
  case Nil
  then show ?case by simp
next
  case (Cons e es)
  define l1 where "l1 = (if l = bg then l + 1 else l)"
  have nbg: "fst e \<noteq> bg" using Cons.prems(2) by (auto simp: keys_def)
  have le1: "l1 \<le> fst e"
  proof (cases "l = bg")
    case True
    then have "l < fst e" using Cons.prems(4) nbg by auto
    then show ?thesis using True by (simp add: l1_def inc_le)
  next
    case False
    then show ?thesis using Cons.prems(4) by (simp add: l1_def)
  qed
  have lastge: "fst e \<le> fst (last (e # es))"
  proof (cases "es = []")
    case True then show ?thesis by simp
  next
    case False
    then have "last es \<in> set es" by simp
    moreover have "\<forall>x\<in>set es. fst e < fst x" using Cons.prems(1) by (auto simp: ordered_def)
    ultimately have "fst e < fst (last es)" by blast
    then show ?thesis using False by simp
  qed
  show ?case
  proof (cases "l1 = fst e")
    case False
    then have "l1 < fst e" using le1 by simp
    then have "l1 \<noteq> fst (last (e # es))" using lastge by auto
    then show ?thesis using False by (simp add: l1_def Let_def)
  next
    case True
    show ?thesis
    proof (cases "es = []")
      case True
      then show ?thesis using \<open>l1 = fst e\<close> by (simp add: l1_def Let_def)
    next
      case False
      have o: "ordered es" using Cons.prems(1) by (simp add: ordered_def)
      have b: "bg \<notin> keys es" using Cons.prems(2) by (auto simp: keys_def)
      have "hd es \<in> set es" using False by simp
      then have "fst e < fst (hd es)" using Cons.prems(1) by (auto simp: ordered_def)
      then have "l1 + 1 \<le> fst (hd es)" using True by (simp add: inc_le)
      from Cons.IH[OF o b False this] show ?thesis
        using True False by (simp add: l1_def Let_def)
    qed
  qed
qed

lemma PushLabelObject_Some_cases:
  fixes lm :: "('l::len word) LabelMap"
  shows "(\<exists>l. PushLabelObject h lm (Some a) =
             AddLabelObject (store h a (SetLabel (deref h a) l)) lm (Some a)
             \<and> l \<noteq> m_BackgroundValue lm \<and> \<not> PushLabelObject_exhausted lm)
       \<or> (PushLabelObject_exhausted lm
             \<and> PushLabelObject h lm (Some a) = AddLabelObject h lm (Some a))
       \<or> (\<exists>h'. PushLabelObject h lm (Some a) = Inl (ContainerFull, (h', lm))
             \<and> (h' = h \<or> (\<exists>l. h' = store h a (SetLabel (deref h a) l)))
             \<and> m_LabelObjectContainer lm \<noteq> []
             \<and> fst (PushLabelObject_search (m_LabelObjectContainer lm)
                      (fst (hd (m_LabelObjectContainer lm))) (m_BackgroundValue lm))
                 = fst (last (m_LabelObjectContainer lm)))"
proof -
  define c where "c = m_LabelObjectContainer lm"
  define bg where "bg = m_BackgroundValue lm"
  define lastLabel where "lastLabel = fst (last c)"
  define firstLabel where "firstLabel = fst (hd c)"
  note defs = c_def[symmetric] bg_def[symmetric] lastLabel_def[symmetric] firstLabel_def[symmetric]
  consider (empty) "c = []"
    | (a) "c \<noteq> []" "lastLabel \<noteq> LabelType_max \<and> lastLabel + 1 \<noteq> bg"
    | (b) "c \<noteq> []" "\<not> (lastLabel \<noteq> LabelType_max \<and> lastLabel + 1 \<noteq> bg)"
          "lastLabel \<noteq> LabelType_max \<and> lastLabel + 1 \<noteq> LabelType_max \<and> lastLabel + 2 \<noteq> bg"
    | (c) "c \<noteq> []" "\<not> (lastLabel \<noteq> LabelType_max \<and> lastLabel + 1 \<noteq> bg)"
          "\<not> (lastLabel \<noteq> LabelType_max \<and> lastLabel + 1 \<noteq> LabelType_max \<and> lastLabel + 2 \<noteq> bg)"
          "firstLabel \<noteq> LabelType_NonpositiveMin \<and> firstLabel - 1 \<noteq> bg"
    | (d) "c \<noteq> []" "\<not> (lastLabel \<noteq> LabelType_max \<and> lastLabel + 1 \<noteq> bg)"
          "\<not> (lastLabel \<noteq> LabelType_max \<and> lastLabel + 1 \<noteq> LabelType_max \<and> lastLabel + 2 \<noteq> bg)"
          "\<not> (firstLabel \<noteq> LabelType_NonpositiveMin \<and> firstLabel - 1 \<noteq> bg)"
    by blast
  then show ?thesis
  proof cases
    case empty
    have "PushLabelObject h lm (Some a) =
            AddLabelObject (store h a (SetLabel (deref h a) (if bg = 0 then 1 else 0))) lm (Some a)"
      using empty by (simp add: PushLabelObject_def defs)
    moreover have "(if bg = 0 then 1 else 0) \<noteq> bg" by simp
    moreover have "\<not> PushLabelObject_exhausted lm"
      using empty by (simp add: PushLabelObject_exhausted_def defs)
    ultimately show ?thesis unfolding bg_def by blast
  next
    case a
    have "PushLabelObject h lm (Some a) =
            AddLabelObject (store h a (SetLabel (deref h a) (lastLabel + 1))) lm (Some a)"
      using a by (simp add: PushLabelObject_def defs Let_def)
    moreover have "\<not> PushLabelObject_exhausted lm"
      using a by (simp add: PushLabelObject_exhausted_def defs Let_def)
    ultimately show ?thesis using a unfolding bg_def by blast
  next
    case b
    have "PushLabelObject h lm (Some a) =
            AddLabelObject (store h a (SetLabel (deref h a) (lastLabel + 2))) lm (Some a)"
      using b by (simp add: PushLabelObject_def defs Let_def)
    moreover have "\<not> PushLabelObject_exhausted lm"
      using b by (simp add: PushLabelObject_exhausted_def defs Let_def)
    ultimately show ?thesis using b unfolding bg_def by blast
  next
    case c
    have "PushLabelObject h lm (Some a) =
            AddLabelObject (store h a (SetLabel (deref h a) (firstLabel - 1))) lm (Some a)"
      using c by (auto simp: PushLabelObject_def defs Let_def)
    moreover have "\<not> PushLabelObject_exhausted lm"
      using c by (auto simp: PushLabelObject_exhausted_def defs Let_def)
    ultimately show ?thesis using c unfolding bg_def by blast
  next
    case d
    obtain label found where s: "PushLabelObject_search c firstLabel bg = (label, found)"
      by (cases "PushLabelObject_search c firstLabel bg") auto
    have p: "PushLabelObject h lm (Some a) =
            (if label = lastLabel
             then Inl (ContainerFull, ((if found then store h a (SetLabel (deref h a) label) else h), lm))
             else AddLabelObject (if found then store h a (SetLabel (deref h a) label) else h) lm (Some a))"
      using d s by (auto simp: PushLabelObject_def defs Let_def)
    have e: "PushLabelObject_exhausted lm \<longleftrightarrow> \<not> found"
      using d s by (auto simp: PushLabelObject_exhausted_def defs Let_def)
    show ?thesis
    proof (cases found)
      case False
      have sl: "fst (PushLabelObject_search c firstLabel bg) = label" using s by simp
      show ?thesis
      proof (cases "label = lastLabel")
        case True
        then have "PushLabelObject h lm (Some a) = Inl (ContainerFull, (h, lm))"
          using p False by simp
        moreover have "fst (PushLabelObject_search c firstLabel bg) = fst (last c)"
          using sl True by (simp add: lastLabel_def)
        ultimately show ?thesis using d(1) unfolding c_def bg_def firstLabel_def by blast
      next
        case nl: False
        then have "PushLabelObject h lm (Some a) = AddLabelObject h lm (Some a)"
          using p False by simp
        then show ?thesis using e False by blast
      qed
    next
      case True
      then have nb: "label \<noteq> bg" using s search_found_not_bg[of c firstLabel bg label] by simp
      show ?thesis
      proof (cases "label = lastLabel")
        case False
        then have "PushLabelObject h lm (Some a) =
            AddLabelObject (store h a (SetLabel (deref h a) label)) lm (Some a)"
          using p True by simp
        then show ?thesis using nb e True unfolding bg_def by blast
      next
        case t: True
        then have "PushLabelObject h lm (Some a) =
            Inl (ContainerFull, (store h a (SetLabel (deref h a) label), lm))"
          using p True by simp
        moreover have "fst (PushLabelObject_search c firstLabel bg) = fst (last c)"
          using s t by (simp add: lastLabel_def)
        ultimately show ?thesis using d(1) unfolding c_def bg_def firstLabel_def by blast
      qed
    qed
  qed
qed

lemma PushLabelObject_never_ContainerFull:
  fixes lm :: "('l::len word) LabelMap"
  assumes "ordered (m_LabelObjectContainer lm)" "background_excluded lm"
  shows "PushLabelObject h lm labelObject \<noteq> Inl (ContainerFull, s)"
proof (cases labelObject)
  case None
  then show ?thesis by (simp add: PushLabelObject_def)
next
  case (Some a)
  have n: "m_LabelObjectContainer lm \<noteq> [] \<Longrightarrow>
        fst (PushLabelObject_search (m_LabelObjectContainer lm)
                (fst (hd (m_LabelObjectContainer lm))) (m_BackgroundValue lm))
          \<noteq> fst (last (m_LabelObjectContainer lm))"
    using search_never_last[OF assms(1), of "m_BackgroundValue lm"
          "fst (hd (m_LabelObjectContainer lm))"] assms(2)
    by (simp add: background_excluded_def)
  have x: "\<And>h'. AddLabelObject h' lm (Some a) \<noteq> Inl (ContainerFull, s)"
    by (simp add: AddLabelObject_def)
  from PushLabelObject_Some_cases[of h lm a] show ?thesis
    unfolding Some using n x by (elim disjE exE conjE) auto
qed

text \<open>
  C4. The claim: when the first three allocation rules fail and the search loop finds
  no gap, \<open>PushLabelObject\<close> fails with \<open>ContainerFull\<close>. The code tests
  \<^verbatim>\<open>label == lastLabel\<close> after the loop, but a loop that ran to the end leaves
  \<open>label\<close> one past the last key, so the test is false and the object is added under
  whatever label it had. Here the label map has background value 254 and holds label 255
  only: rules (a) and (b) fail as 255 is the maximum, rule (c) fails as 255 - 1 is the
  background value, the search finds no gap. The pushed object keeps its label 0 and is
  stored under 0; no failure is raised.
\<close>

theorem PushLabelObject_exhausted_succeeds:
  "PushLabelObject_exhausted lm_top
   \<and> PushLabelObject_search (m_LabelObjectContainer lm_top) 255 254 = (0, False)
   \<and> PushLabelObject heap_top lm_top (Some 1) =
       Inr (heap_top, \<lparr> m_BackgroundValue = 254,
                         m_LabelObjectContainer = [(0, 1), (255, 0)], m_MTime = 3 \<rparr>)"
  by (simp add: PushLabelObject_exhausted_def PushLabelObject_def lm_top_def heap_top_def
      LabelType_max_def LabelType_NonpositiveMin_def AddLabelObject_def Modified_def
      GetLabel_def deref_def LabelObject_New_def)

subsection \<open>Which keys a call can add\<close>

lemma keys_container_assign: "keys (container_assign c k v) = insert k (keys c)"
  by (induction c) (auto simp: keys_def)

lemma keys_container_erase: "keys (container_erase c k) = keys c - {k}"
  by (auto simp: keys_def container_erase_def)

lemma keys_within_refl: "keys_within lm K lm"
  by (simp add: keys_within_def)

lemma keys_within_Modified: "keys_within lm K (Modified lm') = keys_within lm K lm'"
  by (simp add: keys_within_def Modified_def)

lemma keys_within_trans:
  "keys_within lm K lm1 \<Longrightarrow> keys_within lm1 K' lm2 \<Longrightarrow> keys_within lm (K \<union> K') lm2"
  by (auto simp: keys_within_def)

lemma keys_within_mono: "keys_within lm K lm' \<Longrightarrow> K \<subseteq> K' \<Longrightarrow> keys_within lm K' lm'"
  by (auto simp: keys_within_def)

lemma keys_within_excluded:
  "background_excluded lm \<Longrightarrow> keys_within lm K lm' \<Longrightarrow> m_BackgroundValue lm \<notin> K
     \<Longrightarrow> background_excluded lm'"
  by (auto simp: keys_within_def background_excluded_def)

lemma AddLabelObject_keys:
  "keys_within lm {GetLabel (deref h a)} (snd (state_after (AddLabelObject h lm (Some a))))"
  by (simp add: AddLabelObject_def state_after_def keys_within_def Modified_def
      keys_container_assign)

lemma AddLabelObject_None_keys:
  "keys_within lm {} (snd (state_after (AddLabelObject h lm None)))"
  by (simp add: AddLabelObject_def state_after_def keys_within_def)

lemma RemoveLabel_keys: "keys_within lm {} (state_after (RemoveLabel lm label))"
  by (auto simp: RemoveLabel_def state_after_def keys_within_def Modified_def
      keys_container_erase)

lemma RemoveLabelObject_keys: "keys_within lm {} (state_after (RemoveLabelObject h lm p))"
  using RemoveLabel_keys[of lm]
  by (auto simp: RemoveLabelObject_def state_after_def keys_within_def split: option.splits)

lemma RemovePixel_it_keys:
  "keys_within lm {} (snd (state_after (RemovePixel_it h lm it idx emit)))"
proof (cases it)
  case None
  then show ?thesis by (simp add: RemovePixel_it_def state_after_def keys_within_def)
next
  case (Some e)
  obtain removed ob where r: "RemoveIndex (deref h (snd e)) idx = (removed, ob)"
    by (cases "RemoveIndex (deref h (snd e)) idx") auto
  define h1 where "h1 = store h (snd e) ob"
  have k: "keys_within lm {} (state_after (RemoveLabelObject h1 lm (Some (snd e))))"
    by (rule RemoveLabelObject_keys)
  show ?thesis
    using k unfolding Some
    by (auto simp: RemovePixel_it_def r h1_def[symmetric] state_after_def keys_within_Modified
        keys_within_refl split: sum.splits prod.splits)
qed

lemma AddPixel_it_keys:
  "keys_within lm ({label} - {m_BackgroundValue lm})
     (snd (state_after (AddPixel_it h lm it idx label)))"
proof (cases "label = m_BackgroundValue lm")
  case True
  then show ?thesis by (simp add: AddPixel_it_def state_after_def keys_within_refl)
next
  case False
  show ?thesis
  proof (cases it)
    case (Some e)
    then show ?thesis using False
      by (simp add: AddPixel_it_def state_after_def keys_within_Modified keys_within_refl)
  next
    case None
    have "GetLabel (deref (store (store h0 a (SetLabel ob label)) a ob') a) = GetLabel ob'"
      for h0 :: "'a word heap" and a ob ob'
      by (simp add: deref_def store_def)
    then show ?thesis using False None
      by (simp add: AddPixel_it_def state_after_def New_def Let_def AddLabelObject_def
          keys_within_def Modified_def keys_container_assign GetLabel_def deref_def store_def
          SetLabel_def AddIndex_def)
  qed
qed


lemma AddPixel_keys:
  "keys_within lm ({label} - {m_BackgroundValue lm})
     (snd (state_after (AddPixel h lm idx label)))"
  using AddPixel_it_keys[of lm label h "container_find (m_LabelObjectContainer lm) label" idx]
  by (cases "label = m_BackgroundValue lm")
     (simp_all add: AddPixel_def state_after_def keys_within_refl)

lemma RemovePixel_keys:
  "keys_within lm {} (snd (state_after (RemovePixel h lm idx label)))"
  using RemovePixel_it_keys[of lm h "container_find (m_LabelObjectContainer lm) label" idx True]
  by (simp add: RemovePixel_def state_after_def keys_within_refl)

lemma SetLine_keys:
  "keys_within lm ({label} - {m_BackgroundValue lm})
     (snd (state_after (SetLine h lm idx len label)))"
proof (cases "label = m_BackgroundValue lm")
  case True
  then show ?thesis by (simp add: SetLine_def state_after_def keys_within_refl)
next
  case False
  show ?thesis
  proof (cases "container_find (m_LabelObjectContainer lm) label")
    case (Some e)
    then show ?thesis using False
      by (simp add: SetLine_def state_after_def keys_within_Modified keys_within_refl)
  next
    case None
    then show ?thesis using False
      by (simp add: SetLine_def state_after_def New_def Let_def AddLabelObject_def
          keys_within_def Modified_def keys_container_assign GetLabel_def deref_def store_def
          SetLabel_def AddLine_def)
  qed
qed

lemma SetPixel_loop_keys:
  "keys_within lm {} (snd (fst (state_after (SetPixel_loop h lm rest idx iLabel newLabel))))"
proof (induction h lm rest idx iLabel newLabel rule: SetPixel_loop.induct)
  case (1 h lm idx iLabel newLabel)
  then show ?case by (simp add: state_after_def keys_within_refl)
next
  case (2 h lm it rest idx iLabel newLabel)
  show ?case
  proof (cases "fst it \<noteq> iLabel")
    case True
    have k: "keys_within lm {}
        (snd (state_after (RemovePixel_it h lm (Some it) idx (iLabel = m_BackgroundValue lm))))"
      by (rule RemovePixel_it_keys)
    show ?thesis
    proof (cases "RemovePixel_it h lm (Some it) idx (iLabel = m_BackgroundValue lm)")
      case (Inl x)
      then show ?thesis using True k
        by (cases x) (simp add: state_after_def)
    next
      case (Inr s)
      obtain h1 lm1 where s: "s = (h1, lm1)" by (cases s)
      have k1: "keys_within lm {} lm1" using k Inr s by (simp add: state_after_def)
      show ?thesis
      proof (cases "iterator_valid (m_LabelObjectContainer lm1) rest")
        case v: True
        from "2.IH"(1)[OF True Inr[unfolded s] refl v]
        have "keys_within lm1 {}
              (snd (fst (state_after (SetPixel_loop h1 lm1
                 (filter (\<lambda>e. e \<in> set (m_LabelObjectContainer lm1)) rest) idx iLabel newLabel))))" .
        from keys_within_trans[OF k1 this] show ?thesis
          using True Inr s v by simp
      next
        case False
        then show ?thesis using True Inr s k1 by (simp add: state_after_def)
      qed
    qed
  next
    case False
    have k: "keys_within lm ({iLabel} - {m_BackgroundValue lm})
        (snd (state_after (AddPixel_it h lm (Some it) idx iLabel)))"
      by (rule AddPixel_it_keys)
    have k0: "keys_within lm {} (snd (state_after (AddPixel_it h lm (Some it) idx iLabel)))"
      by (simp add: AddPixel_it_def state_after_def keys_within_Modified keys_within_refl)
    show ?thesis
    proof (cases "AddPixel_it h lm (Some it) idx iLabel")
      case (Inl x)
      then show ?thesis using False k0
        by (cases x) (simp add: state_after_def)
    next
      case (Inr s)
      obtain h1 lm1 where s: "s = (h1, lm1)" by (cases s)
      have k1: "keys_within lm {} lm1" using k0 Inr s by (simp add: state_after_def)
      from "2.IH"(2)[OF _ Inr[unfolded s] refl] False
      have "keys_within lm1 {}
              (snd (fst (state_after (SetPixel_loop h1 lm1 rest idx iLabel False))))" by simp
      from keys_within_trans[OF k1 this] show ?thesis
        using False Inr s by simp
    qed
  qed
qed

lemma SetPixel_keys:
  "keys_within lm ({iLabel} - {m_BackgroundValue lm})
     (snd (state_after (SetPixel h lm idx iLabel)))"
proof -
  define r where "r = SetPixel_loop h lm (m_LabelObjectContainer lm) idx iLabel True"
  have k: "keys_within lm {} (snd (fst (state_after r)))"
    unfolding r_def by (rule SetPixel_loop_keys)
  show ?thesis
  proof (cases r)
    case (Inl x)
    obtain err s nl where x: "x = (err, (s, nl))" by (cases x) auto
    show ?thesis using k Inl x
      by (auto simp: SetPixel_def r_def[symmetric] state_after_def intro: keys_within_mono)
  next
    case (Inr y)
    obtain h1 lm1 nl where y: "y = ((h1, lm1), nl)" by (cases y) auto
    have k1: "keys_within lm {} lm1" using k Inr y by (simp add: state_after_def)
    have b: "m_BackgroundValue lm1 = m_BackgroundValue lm" using k1 by (simp add: keys_within_def)
    have "keys_within lm1 ({iLabel} - {m_BackgroundValue lm})
            (snd (state_after (AddPixel_it h1 lm1 None idx iLabel)))"
      using AddPixel_it_keys[of lm1 iLabel h1 None idx] b by simp
    from keys_within_trans[OF k1 this]
    have "keys_within lm ({iLabel} - {m_BackgroundValue lm})
            (snd (state_after (AddPixel_it h1 lm1 None idx iLabel)))" by simp
    then show ?thesis using Inr y k1
      by (auto simp: SetPixel_def r_def[symmetric] state_after_def intro: keys_within_mono)
  qed
qed


text \<open>The definitions that evaluate a call on a concrete state.\<close>

lemmas eval_defs = LabelMap_ctor_eq heap0_def calls_example_def state_after_def with_heap_def
  PushLabelObject_def PushLabelObject_exhausted_def AddLabelObject_def AddPixel_def AddPixel_it_def
  RemovePixel_def RemovePixel_it_def iterator_valid_def respects_background_def RemoveLabelObject_def RemoveLabel_def SetPixel_def
  SetLine_def ClearLabels_def Graft_def New_def store_def deref_def
  GetLabel_def SetLabel_def HasIndex_def AddIndex_def RemoveIndex_def Empty_def AddLine_def
  LabelObject_New_def Modified_def container_find_def container_erase_def
  LabelType_max_def LabelType_NonpositiveMin_def Let_def


subsection \<open>The container as an ordered association list\<close>

lemma deref_store: "deref (store h a ob) b = (if b = a then ob else deref h b)"
  by (simp add: deref_def store_def)

lemma next_free_store: "next_free (store h a ob) = next_free h"
  by (simp add: store_def)

lemma ordered_Cons: "ordered (e # es) \<longleftrightarrow> (\<forall>x\<in>set es. fst e < fst x) \<and> ordered es"
  by (auto simp: ordered_def)

lemma ordered_distinct_keys: "ordered c \<Longrightarrow> distinct (map fst c)"
  by (induction c) (auto simp: ordered_Cons)

lemma ordered_filter: "ordered c \<Longrightarrow> ordered (filter P c)"
  by (induction c) (auto simp: ordered_Cons)

lemma ordered_same_key: "ordered c \<Longrightarrow> e \<in> set c \<Longrightarrow> e' \<in> set c \<Longrightarrow> fst e = fst e' \<Longrightarrow> e = e'"
  by (induction c) (auto simp: ordered_Cons)

lemma container_assign_split:
  "ordered c \<Longrightarrow>
     container_assign c k v = filter (\<lambda>e. fst e < k) c @ (k, v) # filter (\<lambda>e. k < fst e) c"
proof (induction c)
  case Nil
  then show ?case by simp
next
  case (Cons e es)
  then have lt: "\<forall>x\<in>set es. fst e < fst x" and o: "ordered es" by (auto simp: ordered_Cons)
  show ?case
  proof (cases "k < fst e")
    case True
    then have "\<forall>x\<in>set es. k < fst x" using lt by auto
    then have "filter (\<lambda>e. fst e < k) es = []" "filter (\<lambda>e. k < fst e) es = es"
      by (auto simp: filter_empty_conv filter_id_conv)
    then show ?thesis using True by auto
  next
    case False
    show ?thesis
    proof (cases "k = fst e")
      case True
      then have "filter (\<lambda>e. fst e < k) es = []" "filter (\<lambda>e. k < fst e) es = es"
        using lt by (auto simp: filter_empty_conv filter_id_conv)
      then show ?thesis using True by auto
    next
      case f: False
      then have "fst e < k" using False by auto
      then show ?thesis using Cons.IH[OF o] False f by auto
    qed
  qed
qed

lemma set_container_assign:
  "ordered c \<Longrightarrow> set (container_assign c k v) = insert (k, v) {e \<in> set c. fst e \<noteq> k}"
  by (auto simp: container_assign_split)

lemma ordered_append:
  "ordered (xs @ ys) \<longleftrightarrow> ordered xs \<and> ordered ys \<and> (\<forall>x\<in>set xs. \<forall>y\<in>set ys. fst x < fst y)"
  by (auto simp: ordered_def sorted_wrt_append)

lemma ordered_container_assign: "ordered c \<Longrightarrow> ordered (container_assign c k v)"
  by (auto simp: container_assign_split ordered_append ordered_Cons ordered_filter)

lemma map_snd_container_assign:
  "ordered c \<Longrightarrow> distinct (map snd c) \<Longrightarrow> v \<notin> snd ` set c
     \<Longrightarrow> distinct (map snd (container_assign c k v))"
proof -
  assume o: "ordered c" and d: "distinct (map snd c)" and v: "v \<notin> snd ` set c"
  have "distinct (map snd (filter (\<lambda>e. fst e < k \<or> k < fst e) c))"
    using d by (rule distinct_map_filter)
  moreover have "filter (\<lambda>e. fst e < k \<or> k < fst e) c
       = filter (\<lambda>e. fst e < k) c @ filter (\<lambda>e. k < fst e) c"
    using o
  proof (induction c)
    case Nil
    then show ?case by simp
  next
    case (Cons e es)
    then have lt: "\<forall>x\<in>set es. fst e < fst x" and o: "ordered es" by (auto simp: ordered_Cons)
    show ?case
    proof (cases "k < fst e")
      case True
      then have "\<forall>x\<in>set es. k < fst x" using lt by auto
      then have "filter (\<lambda>e. fst e < k) es = []" by (auto simp: filter_empty_conv)
      then show ?thesis using True Cons.IH[OF o] by auto
    next
      case False
      then show ?thesis using Cons.IH[OF o] by auto
    qed
  qed
  ultimately have "distinct (map snd (filter (\<lambda>e. fst e < k) c @ filter (\<lambda>e. k < fst e) c))"
    by simp
  then show ?thesis using v o by (auto simp: container_assign_split)
qed

lemma container_find_Some: "container_find c k = Some e \<Longrightarrow> e \<in> set c \<and> fst e = k"
  by (auto simp: container_find_def find_Some_iff)

lemma container_find_None: "container_find c k = None \<longleftrightarrow> k \<notin> keys c"
  by (force simp: container_find_def find_None_iff keys_def)

lemma set_container_erase: "set (container_erase c k) = {e \<in> set c. fst e \<noteq> k}"
  by (auto simp: container_erase_def)

lemma ordered_container_erase: "ordered c \<Longrightarrow> ordered (container_erase c k)"
  by (simp add: container_erase_def ordered_filter)

lemma distinct_snd_container_erase:
  "distinct (map snd c) \<Longrightarrow> distinct (map snd (container_erase c k))"
  by (simp add: container_erase_def distinct_map_filter)

lemma ordered_distinct: "ordered c \<Longrightarrow> distinct c"
  using ordered_distinct_keys[of c] by (simp add: distinct_map)


subsection \<open>Well-formed label maps\<close>

lemma well_formed_iff:
  "well_formed h lm \<longleftrightarrow>
     ordered (m_LabelObjectContainer lm)
     \<and> (\<forall>e\<in>set (m_LabelObjectContainer lm).
           GetLabel (deref h (snd e)) = fst e \<and> snd e < next_free h)"
proof -
  have d: "distinct (map snd c)"
    if o: "ordered c" and l: "\<forall>e\<in>set c. GetLabel (deref h (snd e)) = fst e"
    for c :: "('a \<times> addr) list"
  proof -
    have "distinct (map fst c)" using o by (rule ordered_distinct_keys)
    then have dc: "distinct c" by (simp add: distinct_map)
    have "inj_on snd (set c)"
    proof (rule inj_onI)
      fix e e' assume e: "e \<in> set c" "e' \<in> set c" and s: "snd e = snd e'"
      then have "fst e = fst e'" using l by metis
      then show "e = e'" using ordered_same_key[OF o e] by simp
    qed
    then show ?thesis using dc by (simp add: distinct_map)
  qed
  show ?thesis
    unfolding well_formed_def list_all_iff
    using d[of "m_LabelObjectContainer lm"] by blast
qed

lemma well_formed_same_address:
  "well_formed h lm \<Longrightarrow> e \<in> set (m_LabelObjectContainer lm)
     \<Longrightarrow> e' \<in> set (m_LabelObjectContainer lm) \<Longrightarrow> snd e = snd e' \<Longrightarrow> e = e'"
  unfolding well_formed_def list_all_iff by (auto simp: distinct_map inj_on_def)

lemma well_formed_Modified: "well_formed h (Modified lm) = well_formed h lm"
  by (simp add: well_formed_def Modified_def)

lemma well_formed_heap_frame:
  assumes "well_formed h lm"
    "\<forall>e\<in>set (m_LabelObjectContainer lm). GetLabel (deref h' (snd e)) = GetLabel (deref h (snd e))"
    "next_free h \<le> next_free h'"
  shows "well_formed h' lm"
  using assms unfolding well_formed_iff by (auto simp: less_le_trans)

lemma well_formed_container:
  assumes "well_formed h lm" "m_LabelObjectContainer lm' = m_LabelObjectContainer lm"
  shows "well_formed h lm'"
  using assms by (simp add: well_formed_def)

lemma well_formed_filter:
  assumes "well_formed h lm" "m_LabelObjectContainer lm' = filter P (m_LabelObjectContainer lm)"
  shows "well_formed h lm'"
  using assms unfolding well_formed_iff by (auto simp: ordered_filter)

lemma container_assign_same:
  "ordered c \<Longrightarrow> (k, v) \<in> set c \<Longrightarrow> container_assign c k v = c"
proof (induction c)
  case Nil
  then show ?case by simp
next
  case (Cons e es)
  show ?case
  proof (cases "e = (k, v)")
    case True
    then show ?thesis by simp
  next
    case False
    then have i: "(k, v) \<in> set es" using Cons.prems by simp
    then have "fst e < k" using Cons.prems(1) by (auto simp: ordered_Cons)
    moreover have "ordered es" using Cons.prems(1) by (simp add: ordered_Cons)
    ultimately show ?thesis using Cons.IH i by auto
  qed
qed

lemma well_formed_assign:
  assumes w: "well_formed h lm" and a: "a < next_free h"
  shows "well_formed h (lm \<lparr> m_LabelObjectContainer :=
            container_assign (m_LabelObjectContainer lm) (GetLabel (deref h a)) a \<rparr>)"
proof -
  have o: "ordered (m_LabelObjectContainer lm)" using w by (simp add: well_formed_iff)
  note s = set_container_assign[OF o, of "GetLabel (deref h a)" a]
  show ?thesis
    unfolding well_formed_iff using w a
    by (auto simp: s ordered_container_assign[OF o] well_formed_iff)
qed

lemma AddLabelObject_well_formed:
  assumes "well_formed h lm" "a < next_free h"
  shows "\<exists>lm'. AddLabelObject h lm (Some a) = Inr (h, lm') \<and> well_formed h lm'"
  using well_formed_assign[OF assms]
  by (simp add: AddLabelObject_def well_formed_Modified)

lemma RemovePixel_it_well_formed:
  assumes w: "well_formed h lm" and e: "e \<in> set (m_LabelObjectContainer lm)"
  shows "\<exists>h1 lm1. (RemovePixel_it h lm (Some e) idx emit = Inr (h1, lm1)
                    \<or> RemovePixel_it h lm (Some e) idx emit = Inl (BackgroundLabelAccess, (h1, lm1)))
           \<and> well_formed h1 lm1
           \<and> set (m_LabelObjectContainer lm) - {e} \<subseteq> set (m_LabelObjectContainer lm1)
           \<and> set (m_LabelObjectContainer lm1) \<subseteq> set (m_LabelObjectContainer lm)"
proof -
  define a where "a = snd e"
  define ob where "ob = deref h a"
  define ob1 where "ob1 = ob \<lparr> m_Region := m_Region ob - {idx} \<rparr>"
  define h1 where "h1 = store h a ob1"
  have unf: "RemovePixel_it h lm (Some e) idx emit =
      (if idx \<in> m_Region ob then
         (case (if Empty (deref h1 a) then RemoveLabelObject h1 lm (Some a) else Inr lm) of
            Inl (err, lm1) \<Rightarrow> Inl (err, (h1, lm1))
          | Inr lm1 \<Rightarrow> Inr (h1, if emit then Modified lm1 else lm1))
       else Inr (h1, lm))"
    unfolding h1_def ob1_def ob_def a_def
    by (simp add: RemovePixel_it_def RemoveIndex_def Let_def)
  have o: "ordered (m_LabelObjectContainer lm)" using w by (simp add: well_formed_iff)
  have lab: "GetLabel ob = fst e" using w e by (auto simp: well_formed_iff ob_def a_def)
  have "\<forall>b. GetLabel (deref h1 b) = GetLabel (deref h b)"
    by (simp add: h1_def deref_store ob1_def ob_def GetLabel_def)
  then have w1: "well_formed h1 lm"
    using well_formed_heap_frame[OF w, of h1] by (simp add: h1_def next_free_store)
  have lab1: "GetLabel (deref h1 a) = fst e"
    using lab by (simp add: h1_def deref_store ob1_def GetLabel_def)
  define lmE where "lmE = lm \<lparr> m_LabelObjectContainer :=
                      container_erase (m_LabelObjectContainer lm) (fst e) \<rparr>"
  have sE: "set (m_LabelObjectContainer lmE) = set (m_LabelObjectContainer lm) - {e}"
    using ordered_same_key[OF o _ e] e by (auto simp: lmE_def set_container_erase)
  have wE: "well_formed h1 lmE"
    by (rule well_formed_filter[OF w1, of _ "\<lambda>x. fst x \<noteq> fst e"])
       (simp add: lmE_def container_erase_def)
  have rl: "RemoveLabelObject h1 lm (Some a) =
              (if m_BackgroundValue lm = fst e then Inl (BackgroundLabelAccess, lm)
               else Inr (Modified lmE))"
    using lab1 by (simp add: RemoveLabelObject_def RemoveLabel_def lmE_def)
  consider (keep) "\<not> (idx \<in> m_Region ob \<and> Empty (deref h1 a))"
    | (throw) "idx \<in> m_Region ob" "Empty (deref h1 a)" "m_BackgroundValue lm = fst e"
    | (erase) "idx \<in> m_Region ob" "Empty (deref h1 a)" "m_BackgroundValue lm \<noteq> fst e"
    by blast
  then show ?thesis
  proof cases
    case keep
    then have "RemovePixel_it h lm (Some e) idx emit = Inr (h1, lm)
        \<or> RemovePixel_it h lm (Some e) idx emit = Inr (h1, if emit then Modified lm else lm)"
      by (auto simp: unf)
    moreover have "well_formed h1 (if emit then Modified lm else lm)"
      using w1 by (simp add: well_formed_Modified)
    moreover have "m_LabelObjectContainer (if emit then Modified lm else lm)
        = m_LabelObjectContainer lm" by (simp add: Modified_def)
    ultimately show ?thesis using w1 by (metis Diff_subset subset_refl)
  next
    case throw
    then have "RemovePixel_it h lm (Some e) idx emit = Inl (BackgroundLabelAccess, (h1, lm))"
      by (simp add: unf rl)
    then show ?thesis using w1 by blast
  next
    case erase
    then have "RemovePixel_it h lm (Some e) idx emit
        = Inr (h1, if emit then Modified (Modified lmE) else Modified lmE)"
      by (simp add: unf rl)
    moreover have "well_formed h1 (if emit then Modified (Modified lmE) else Modified lmE)"
      using wE by (simp add: well_formed_Modified)
    moreover have "set (m_LabelObjectContainer (if emit then Modified (Modified lmE) else Modified lmE))
        = set (m_LabelObjectContainer lm) - {e}" using sE by (simp add: Modified_def)
    ultimately show ?thesis by (metis Diff_subset subset_refl)
  qed
qed

lemma AddPixel_it_Some_well_formed:
  assumes w: "well_formed h lm" and e: "e \<in> set (m_LabelObjectContainer lm)"
  shows "\<exists>h1 lm1. AddPixel_it h lm (Some e) idx label = Inr (h1, lm1)
           \<and> well_formed h1 lm1
           \<and> m_LabelObjectContainer lm1 = m_LabelObjectContainer lm
           \<and> (label \<noteq> m_BackgroundValue lm \<longrightarrow> HasIndex (deref h1 (snd e)) idx)
           \<and> (\<forall>b. b \<noteq> snd e \<longrightarrow> deref h1 b = deref h b)"
proof (cases "label = m_BackgroundValue lm")
  case True
  then show ?thesis using w by (simp add: AddPixel_it_def)
next
  case False
  define h1 where "h1 = store h (snd e) (AddIndex (deref h (snd e)) idx)"
  have eq: "AddPixel_it h lm (Some e) idx label = Inr (h1, Modified lm)"
    using False by (simp add: AddPixel_it_def h1_def)
  have "\<forall>b. GetLabel (deref h1 b) = GetLabel (deref h b)"
    by (simp add: h1_def deref_store AddIndex_def GetLabel_def)
  then have "well_formed h1 lm"
    using well_formed_heap_frame[OF w, of h1] by (simp add: h1_def next_free_store)
  then have w1: "well_formed h1 (Modified lm)" by (simp add: well_formed_Modified)
  have hi: "HasIndex (deref h1 (snd e)) idx"
    by (simp add: h1_def deref_store HasIndex_def AddIndex_def)
  have fr: "\<forall>b. b \<noteq> snd e \<longrightarrow> deref h1 b = deref h b" by (simp add: h1_def deref_store)
  have "m_LabelObjectContainer (Modified lm) = m_LabelObjectContainer lm"
    by (simp add: Modified_def)
  then show ?thesis using eq w1 hi fr by blast
qed

lemma well_formed_new_object:
  assumes w: "well_formed h lm"
    and h': "\<forall>b. b \<noteq> next_free h \<longrightarrow> deref h' b = deref h b" "next_free h' = Suc (next_free h)"
    and ob: "GetLabel (deref h' (next_free h)) = label"
  shows "\<exists>lm'. AddLabelObject h' lm (Some (next_free h)) = Inr (h', lm')
           \<and> well_formed h' lm'
           \<and> m_BackgroundValue lm' = m_BackgroundValue lm
           \<and> set (m_LabelObjectContainer lm') =
               insert (label, next_free h) {e \<in> set (m_LabelObjectContainer lm). fst e \<noteq> label}"
proof -
  have old: "\<forall>e\<in>set (m_LabelObjectContainer lm). snd e \<noteq> next_free h"
    using w unfolding well_formed_iff by auto
  then have "\<forall>e\<in>set (m_LabelObjectContainer lm).
        GetLabel (deref h' (snd e)) = GetLabel (deref h (snd e))"
    using h'(1) by auto
  from well_formed_heap_frame[OF w this] have w': "well_formed h' lm" using h'(2) by simp
  have o: "ordered (m_LabelObjectContainer lm)" using w by (simp add: well_formed_iff)
  define lm' where "lm' = Modified (lm \<lparr> m_LabelObjectContainer :=
            container_assign (m_LabelObjectContainer lm) label (next_free h) \<rparr>)"
  have "well_formed h' (lm \<lparr> m_LabelObjectContainer :=
            container_assign (m_LabelObjectContainer lm) (GetLabel (deref h' (next_free h)))
              (next_free h) \<rparr>)"
    using well_formed_assign[OF w', of "next_free h"] h'(2) by simp
  then have wm: "well_formed h' lm'"
    using ob by (simp add: lm'_def well_formed_Modified)
  have "AddLabelObject h' lm (Some (next_free h)) = Inr (h', lm')"
    using ob by (simp add: AddLabelObject_def lm'_def)
  moreover have "m_BackgroundValue lm' = m_BackgroundValue lm"
    by (simp add: lm'_def Modified_def)
  moreover have "set (m_LabelObjectContainer lm')
          = insert (label, next_free h) {e \<in> set (m_LabelObjectContainer lm). fst e \<noteq> label}"
    using set_container_assign[OF o, of label "next_free h"] by (simp add: lm'_def Modified_def)
  ultimately show ?thesis using wm by blast
qed

lemma AddPixel_it_None_well_formed:
  assumes w: "well_formed h lm" and l: "label \<noteq> m_BackgroundValue lm"
  shows "\<exists>h' lm'. AddPixel_it h lm None idx label = Inr (h', lm')
           \<and> well_formed h' lm'
           \<and> set (m_LabelObjectContainer lm') =
               insert (label, next_free h) {e \<in> set (m_LabelObjectContainer lm). fst e \<noteq> label}
           \<and> deref h' (next_free h) = \<lparr> m_Label = label, m_Region = {idx} \<rparr>
           \<and> (\<forall>b. b \<noteq> next_free h \<longrightarrow> deref h' b = deref h b)"
proof -
  define n where "n = next_free h"
  define h0 where "h0 = snd (New h)"
  define h1 where "h1 = store h0 n (SetLabel (deref h0 n) label)"
  define h2 where "h2 = store h1 n (AddIndex (deref h1 n) idx)"
  have new: "New h = (n, h0)" by (simp add: New_def n_def h0_def)
  have eq: "AddPixel_it h lm None idx label = AddLabelObject h2 lm (Some n)"
    using l unfolding h2_def h1_def by (simp add: AddPixel_it_def new Let_def)
  have d: "deref h2 n = \<lparr> m_Label = label, m_Region = {idx} \<rparr>"
    by (simp add: h2_def h1_def h0_def New_def n_def deref_def store_def SetLabel_def
        AddIndex_def LabelObject_New_def)
  have fr: "\<forall>b. b \<noteq> n \<longrightarrow> deref h2 b = deref h b"
    by (simp add: h2_def h1_def h0_def New_def n_def deref_def store_def)
  have nf: "next_free h2 = Suc n"
    by (simp add: h2_def h1_def h0_def New_def n_def store_def)
  have gl: "GetLabel (deref h2 (next_free h)) = label" using d by (simp add: n_def GetLabel_def)
  from well_formed_new_object[OF w fr[unfolded n_def] nf[unfolded n_def] gl]
  obtain lm' where "AddLabelObject h2 lm (Some n) = Inr (h2, lm')" "well_formed h2 lm'"
    "set (m_LabelObjectContainer lm') =
       insert (label, n) {e \<in> set (m_LabelObjectContainer lm). fst e \<noteq> label}"
    by (auto simp: n_def)
  then show ?thesis using eq d fr unfolding n_def by auto
qed

lemma AddPixel_it_None_background:
  "label = m_BackgroundValue lm \<Longrightarrow> AddPixel_it h lm None idx label = Inr (h, lm)"
  by (simp add: AddPixel_it_def)

lemma SetPixel_loop_well_formed:
  assumes "well_formed h lm" "set rest \<subseteq> set (m_LabelObjectContainer lm)" "distinct rest"
  shows "\<not> is_undefined (SetPixel_loop h lm rest idx iLabel nl)
         \<and> well_formed (fst (fst (state_after (SetPixel_loop h lm rest idx iLabel nl))))
                        (snd (fst (state_after (SetPixel_loop h lm rest idx iLabel nl))))"
  using assms
proof (induction h lm rest idx iLabel nl rule: SetPixel_loop.induct)
  case (1 h lm idx iLabel newLabel)
  then show ?case by (simp add: state_after_def)
next
  case (2 h lm it rest idx iLabel newLabel)
  have w: "well_formed h lm" by fact
  have itc: "it \<in> set (m_LabelObjectContainer lm)" using "2.prems"(2) by simp
  show ?case
  proof (cases "fst it \<noteq> iLabel")
    case True
    from RemovePixel_it_well_formed[OF w itc, of idx "iLabel = m_BackgroundValue lm"]
    obtain h1 lm1 where
      eq: "RemovePixel_it h lm (Some it) idx (iLabel = m_BackgroundValue lm) = Inr (h1, lm1)
           \<or> RemovePixel_it h lm (Some it) idx (iLabel = m_BackgroundValue lm)
               = Inl (BackgroundLabelAccess, (h1, lm1))"
      and w1: "well_formed h1 lm1"
      and keep: "set (m_LabelObjectContainer lm) - {it} \<subseteq> set (m_LabelObjectContainer lm1)"
      by blast
    from eq show ?thesis
    proof
      assume t: "RemovePixel_it h lm (Some it) idx (iLabel = m_BackgroundValue lm)
               = Inl (BackgroundLabelAccess, (h1, lm1))"
      then show ?thesis using True w1 by (simp add: state_after_def)
    next
      assume r: "RemovePixel_it h lm (Some it) idx (iLabel = m_BackgroundValue lm) = Inr (h1, lm1)"
      have v: "iterator_valid (m_LabelObjectContainer lm1) rest"
      proof (cases rest)
        case Nil
        then show ?thesis by (simp add: iterator_valid_def)
      next
        case (Cons nxt more)
        then have "nxt \<in> set (m_LabelObjectContainer lm)" "nxt \<noteq> it"
          using "2.prems"(2,3) by auto
        then show ?thesis using keep Cons by (auto simp: iterator_valid_def)
      qed
      have s1: "set (filter (\<lambda>e. e \<in> set (m_LabelObjectContainer lm1)) rest)
                  \<subseteq> set (m_LabelObjectContainer lm1)" by auto
      have d1: "distinct (filter (\<lambda>e. e \<in> set (m_LabelObjectContainer lm1)) rest)"
        using "2.prems"(3) by simp
      from "2.IH"(1)[OF True r refl v w1 s1 d1] show ?thesis
        using True r v by simp
    qed
  next
    case False
    from AddPixel_it_Some_well_formed[OF w itc, of idx iLabel]
    obtain h1 lm1 where
      eq: "AddPixel_it h lm (Some it) idx iLabel = Inr (h1, lm1)"
      and w1: "well_formed h1 lm1"
      and same: "m_LabelObjectContainer lm1 = m_LabelObjectContainer lm"
      by blast
    have s1: "set rest \<subseteq> set (m_LabelObjectContainer lm1)" using "2.prems"(2) same by simp
    have d1: "distinct rest" using "2.prems"(3) by simp
    from "2.IH"(2)[OF _ eq refl w1 s1 d1] False show ?thesis
      using eq by simp
  qed
qed

lemma SetPixel_well_formed:
  assumes w: "well_formed h lm"
  shows "\<not> is_undefined (SetPixel h lm idx iLabel)
         \<and> well_formed (fst (state_after (SetPixel h lm idx iLabel)))
                        (snd (state_after (SetPixel h lm idx iLabel)))"
proof -
  define r where "r = SetPixel_loop h lm (m_LabelObjectContainer lm) idx iLabel True"
  have o: "ordered (m_LabelObjectContainer lm)" using w by (simp add: well_formed_iff)
  from SetPixel_loop_well_formed[OF w subset_refl ordered_distinct[OF o], of idx iLabel True]
  have u: "\<not> is_undefined r"
    and w1: "well_formed (fst (fst (state_after r))) (snd (fst (state_after r)))"
    by (simp_all add: r_def)
  show ?thesis
  proof (cases r)
    case (Inl x)
    obtain err s nl where x: "x = (err, (s, nl))" by (cases x) auto
    have "SetPixel h lm idx iLabel = Inl (err, s)"
      using Inl x by (simp add: SetPixel_def r_def[symmetric])
    then show ?thesis using u w1 Inl x by (simp add: state_after_def)
  next
    case (Inr y)
    obtain h1 lm1 nl where y: "y = ((h1, lm1), nl)" by (cases y) auto
    have w1': "well_formed h1 lm1" using w1 Inr y by (simp add: state_after_def)
    have sp: "SetPixel h lm idx iLabel =
                (if nl then AddPixel_it h1 lm1 None idx iLabel else Inr (h1, lm1))"
      using Inr y by (simp add: SetPixel_def r_def[symmetric])
    show ?thesis
    proof (cases "nl \<and> iLabel \<noteq> m_BackgroundValue lm1")
      case True
      from AddPixel_it_None_well_formed[OF w1', of iLabel idx] True
      obtain h' lm' where "AddPixel_it h1 lm1 None idx iLabel = Inr (h', lm')" "well_formed h' lm'"
        by blast
      then show ?thesis using sp True by (simp add: state_after_def)
    next
      case False
      then have "SetPixel h lm idx iLabel = Inr (h1, lm1)"
        using sp by (auto simp: AddPixel_it_None_background)
      then show ?thesis using w1' by (simp add: state_after_def)
    qed
  qed
qed

lemma AddPixel_well_formed:
  assumes w: "well_formed h lm"
  shows "\<exists>h' lm'. AddPixel h lm idx label = Inr (h', lm') \<and> well_formed h' lm'"
proof (cases "label = m_BackgroundValue lm")
  case True
  then show ?thesis using w by (simp add: AddPixel_def)
next
  case False
  show ?thesis
  proof (cases "container_find (m_LabelObjectContainer lm) label")
    case None
    then show ?thesis
      using AddPixel_it_None_well_formed[OF w False, of idx] False by (auto simp: AddPixel_def)
  next
    case (Some e)
    then have "e \<in> set (m_LabelObjectContainer lm)" by (simp add: container_find_Some)
    from AddPixel_it_Some_well_formed[OF w this, of idx label] show ?thesis
      using False Some by (auto simp: AddPixel_def)
  qed
qed

lemma RemovePixel_well_formed:
  assumes w: "well_formed h lm"
  shows "\<not> is_undefined (RemovePixel h lm idx label)
         \<and> well_formed (fst (state_after (RemovePixel h lm idx label)))
                        (snd (state_after (RemovePixel h lm idx label)))"
proof (cases "label = m_BackgroundValue lm")
  case True
  then show ?thesis using w by (simp add: RemovePixel_def state_after_def)
next
  case False
  show ?thesis
  proof (cases "container_find (m_LabelObjectContainer lm) label")
    case None
    then show ?thesis using w False
      by (simp add: RemovePixel_def RemovePixel_it_def state_after_def)
  next
    case (Some e)
    then have "e \<in> set (m_LabelObjectContainer lm)" by (simp add: container_find_Some)
    from RemovePixel_it_well_formed[OF w this, of idx True]
    obtain h1 lm1 where
      "RemovePixel_it h lm (Some e) idx True = Inr (h1, lm1)
       \<or> RemovePixel_it h lm (Some e) idx True = Inl (BackgroundLabelAccess, (h1, lm1))"
      "well_formed h1 lm1"
      by blast
    then show ?thesis using False Some by (auto simp: RemovePixel_def state_after_def)
  qed
qed

lemma SetLine_well_formed:
  assumes w: "well_formed h lm"
  shows "\<exists>h' lm'. SetLine h lm idx len label = Inr (h', lm') \<and> well_formed h' lm'"
proof (cases "label = m_BackgroundValue lm")
  case True
  then show ?thesis using w by (simp add: SetLine_def)
next
  case False
  show ?thesis
  proof (cases "container_find (m_LabelObjectContainer lm) label")
    case (Some e)
    define h1 where "h1 = store h (snd e) (AddLine (deref h (snd e)) idx len)"
    have "\<forall>b. GetLabel (deref h1 b) = GetLabel (deref h b)"
      by (simp add: h1_def deref_store AddLine_def GetLabel_def)
    then have "well_formed h1 lm"
      using well_formed_heap_frame[OF w, of h1] by (simp add: h1_def next_free_store)
    then have "well_formed h1 (Modified lm)" by (simp add: well_formed_Modified)
    then show ?thesis using False Some by (simp add: SetLine_def h1_def)
  next
    case None
    define n where "n = next_free h"
    define h0 where "h0 = snd (New h)"
    define h1 where "h1 = store h0 n (SetLabel (deref h0 n) label)"
    define h2 where "h2 = store h1 n (AddLine (deref h1 n) idx len)"
    have new: "New h = (n, h0)" by (simp add: New_def n_def h0_def)
    have eq: "SetLine h lm idx len label = AddLabelObject h2 lm (Some n)"
      using False None unfolding h2_def h1_def by (simp add: SetLine_def new Let_def)
    have gl: "GetLabel (deref h2 (next_free h)) = label"
      by (simp add: h2_def h1_def h0_def New_def n_def deref_def store_def SetLabel_def
          AddLine_def GetLabel_def)
    have fr: "\<forall>b. b \<noteq> n \<longrightarrow> deref h2 b = deref h b"
      by (simp add: h2_def h1_def h0_def New_def n_def deref_def store_def)
    have nf: "next_free h2 = Suc n"
      by (simp add: h2_def h1_def h0_def New_def n_def store_def)
    from well_formed_new_object[OF w fr[unfolded n_def] nf[unfolded n_def] gl]
    obtain lm' where "AddLabelObject h2 lm (Some n) = Inr (h2, lm')" "well_formed h2 lm'"
      by (auto simp: n_def)
    then show ?thesis using eq by auto
  qed
qed

lemma RemoveLabel_well_formed:
  assumes w: "well_formed h lm"
  shows "\<not> is_undefined (RemoveLabel lm label) \<and> well_formed h (state_after (RemoveLabel lm label))"
proof (cases "m_BackgroundValue lm = label")
  case True
  then show ?thesis using w by (simp add: RemoveLabel_def state_after_def)
next
  case False
  have "well_formed h (lm \<lparr> m_LabelObjectContainer :=
            container_erase (m_LabelObjectContainer lm) label \<rparr>)"
    by (rule well_formed_filter[OF w, of _ "\<lambda>e. fst e \<noteq> label"]) (simp add: container_erase_def)
  then show ?thesis using False by (simp add: RemoveLabel_def state_after_def well_formed_Modified)
qed

lemma ClearLabels_well_formed:
  assumes w: "well_formed h lm"
  shows "well_formed h (ClearLabels lm)"
proof -
  have "well_formed h (lm \<lparr> m_LabelObjectContainer := [] \<rparr>)"
    by (rule well_formed_filter[OF w, of _ "\<lambda>e. False"]) simp
  then show ?thesis using w by (simp add: ClearLabels_def well_formed_Modified)
qed

lemma Graft_well_formed:
  assumes "well_formed h lm" "proper_handover (h, lm) (CallGraft data)"
  shows "\<not> is_undefined (Graft lm data) \<and> well_formed h (state_after (Graft lm data))"
proof (cases data)
  case None
  then show ?thesis using assms by (simp add: Graft_def state_after_def)
next
  case (Some d)
  show ?thesis
  proof (cases d)
    case (LabelMapData imgData)
    then have "well_formed h imgData" using assms(2) Some by simp
    then have "well_formed h (lm \<lparr> m_LabelObjectContainer := m_LabelObjectContainer imgData,
                    m_BackgroundValue := m_BackgroundValue imgData \<rparr>)"
      by (simp add: well_formed_def)
    then show ?thesis using Some LabelMapData by (simp add: Graft_def state_after_def)
  next
    case OtherData
    then show ?thesis using assms(1) Some by (simp add: Graft_def state_after_def)
  qed
qed

lemma PushLabelObject_well_formed:
  fixes lm :: "('l::len word) LabelMap"
  assumes w: "well_formed h lm" and a: "a < next_free h"
    "a \<notin> snd ` set (m_LabelObjectContainer lm)"
  shows "\<not> is_undefined (PushLabelObject h lm (Some a))
         \<and> well_formed (fst (state_after (PushLabelObject h lm (Some a))))
                        (snd (state_after (PushLabelObject h lm (Some a))))"
proof -
  have na: "\<forall>e\<in>set (m_LabelObjectContainer lm). snd e \<noteq> a" using a(2) by auto
  have rel: "well_formed (store h a (SetLabel (deref h a) l)) lm" for l
  proof -
    have "\<forall>e\<in>set (m_LabelObjectContainer lm).
        GetLabel (deref (store h a (SetLabel (deref h a) l)) (snd e)) = GetLabel (deref h (snd e))"
      using na by (simp add: deref_store)
    from well_formed_heap_frame[OF w this] show ?thesis by (simp add: next_free_store)
  qed
  from PushLabelObject_Some_cases[of h lm a]
  consider (A) l where "PushLabelObject h lm (Some a) =
             AddLabelObject (store h a (SetLabel (deref h a) l)) lm (Some a)"
    | (B) "PushLabelObject h lm (Some a) = AddLabelObject h lm (Some a)"
    | (C) h' where "PushLabelObject h lm (Some a) = Inl (ContainerFull, (h', lm))"
        "h' = h \<or> (\<exists>l. h' = store h a (SetLabel (deref h a) l))"
    by blast
  then show ?thesis
  proof cases
    case A
    from AddLabelObject_well_formed[OF rel[of l], of a] a(1)
    show ?thesis unfolding A by (auto simp: next_free_store state_after_def)
  next
    case B
    from AddLabelObject_well_formed[OF w a(1)]
    show ?thesis unfolding B by (auto simp: state_after_def)
  next
    case C
    then have "well_formed h' lm" using w rel by auto
    then show ?thesis unfolding C(1) by (simp add: state_after_def)
  qed
qed

lemma perform_well_formed:
  assumes w: "well_formed h lm" and g: "proper_handover (h, lm) cl"
  shows "\<not> is_undefined (perform (h, lm) cl)
         \<and> well_formed (fst (state_after (perform (h, lm) cl)))
                        (snd (state_after (perform (h, lm) cl)))"
proof (cases cl)
  case (CallAddLabelObject p)
  show ?thesis
  proof (cases p)
    case None
    then show ?thesis using w CallAddLabelObject by (simp add: AddLabelObject_def state_after_def)
  next
    case (Some a)
    then have "a < next_free h" using g CallAddLabelObject by simp
    from AddLabelObject_well_formed[OF w this] show ?thesis
      using CallAddLabelObject Some by (auto simp: state_after_def)
  qed
next
  case (CallPushLabelObject p)
  show ?thesis
  proof (cases p)
    case None
    then show ?thesis using w CallPushLabelObject by (simp add: PushLabelObject_def state_after_def)
  next
    case (Some a)
    then have "a < next_free h" "a \<notin> snd ` set (m_LabelObjectContainer lm)"
      using g CallPushLabelObject by simp_all
    from PushLabelObject_well_formed[OF w this] show ?thesis
      using CallPushLabelObject Some by simp
  qed
next
  case (CallAddPixel idx label)
  then show ?thesis using AddPixel_well_formed[OF w, of idx label] by (auto simp: state_after_def)
next
  case (CallSetPixel idx label)
  then show ?thesis using SetPixel_well_formed[OF w, of idx label] by simp
next
  case (CallSetLine idx len label)
  then show ?thesis using SetLine_well_formed[OF w, of idx len label] by (auto simp: state_after_def)
next
  case (CallRemovePixel idx label)
  then show ?thesis using RemovePixel_well_formed[OF w, of idx label] by simp
next
  case (CallRemoveLabel label)
  have "state_after (with_heap h (RemoveLabel lm label)) = (h, state_after (RemoveLabel lm label))"
    "is_undefined (with_heap h (RemoveLabel lm label)) = is_undefined (RemoveLabel lm label)"
    by (auto simp: with_heap_def state_after_def split: sum.splits)
  then show ?thesis using RemoveLabel_well_formed[OF w, of label] CallRemoveLabel by simp
next
  case (CallGraft data)
  have "state_after (with_heap h (Graft lm data)) = (h, state_after (Graft lm data))"
    "is_undefined (with_heap h (Graft lm data)) = is_undefined (Graft lm data)"
    by (auto simp: with_heap_def state_after_def split: sum.splits)
  then show ?thesis using Graft_well_formed[OF w, of data] g CallGraft by simp
next
  case CallClearLabels
  then show ?thesis using ClearLabels_well_formed[OF w] by (simp add: state_after_def)
qed

lemma run_well_formed:
  "well_formed (fst s) (snd s) \<Longrightarrow> admissible proper_handover s cs
     \<Longrightarrow> well_defined s cs \<and> well_formed (fst (run s cs)) (snd (run s cs))"
proof (induction cs arbitrary: s)
  case Nil
  then show ?case by simp
next
  case (Cons cl cs)
  obtain h lm where s: "s = (h, lm)" by (cases s)
  have p: "\<not> is_undefined (perform s cl)
         \<and> well_formed (fst (state_after (perform s cl))) (snd (state_after (perform s cl)))"
    using perform_well_formed[of h lm cl] Cons.prems unfolding s by simp
  then show ?case using Cons.IH[of "state_after (perform s cl)"] Cons.prems by simp
qed

lemma well_formed_ctor: "well_formed h0 LabelMap_ctor"
  by (simp add: well_formed_iff LabelMap_ctor_eq ordered_def)

lemma consistent_well_formed: "consistent h lm \<Longrightarrow> well_formed h lm"
  by (simp add: consistent_def)

subsection \<open>Background exclusion (I1)\<close>

lemma PushLabelObject_keys:
  fixes lm :: "('l::len word) LabelMap"
  assumes "\<not> PushLabelObject_exhausted lm"
  shows "\<exists>K. m_BackgroundValue lm \<notin> K
            \<and> keys_within lm K (snd (state_after (PushLabelObject h lm (Some a))))"
proof -
  from PushLabelObject_Some_cases[of h lm a] assms
  consider (A) l where "PushLabelObject h lm (Some a) =
             AddLabelObject (store h a (SetLabel (deref h a) l)) lm (Some a)"
             "l \<noteq> m_BackgroundValue lm"
    | (C) h' where "PushLabelObject h lm (Some a) = Inl (ContainerFull, (h', lm))"
    by blast
  then show ?thesis
  proof cases
    case A
    have "keys_within lm {l} (snd (state_after (PushLabelObject h lm (Some a))))"
      using AddLabelObject_keys[of lm "store h a (SetLabel (deref h a) l)" a]
      unfolding A(1) by (simp add: GetLabel_store_SetLabel)
    then show ?thesis using A(2) by (intro exI[of _ "{l}"]) simp
  next
    case C
    then show ?thesis by (intro exI[of _ "{}"]) (simp add: state_after_def keys_within_refl)
  qed
qed

lemma perform_keeps_background_out:
  assumes "background_excluded lm" "keeps_background_out (h, lm) c"
  shows "background_excluded (snd (state_after (perform (h, lm) c)))"
proof (cases c)
  case (CallAddLabelObject p)
  show ?thesis
  proof (cases p)
    case None
    then show ?thesis using assms(1) CallAddLabelObject
      by (simp add: AddLabelObject_def state_after_def)
  next
    case (Some a)
    then have "GetLabel (deref h a) \<noteq> m_BackgroundValue lm"
      using assms(2) CallAddLabelObject by simp
    then show ?thesis
      using keys_within_excluded[OF assms(1) AddLabelObject_keys[of lm h a]]
        CallAddLabelObject Some by simp
  qed
next
  case (CallPushLabelObject p)
  show ?thesis
  proof (cases p)
    case None
    then show ?thesis using assms(1) CallPushLabelObject
      by (simp add: PushLabelObject_def state_after_def)
  next
    case (Some a)
    then have "\<not> PushLabelObject_exhausted lm"
      using assms(2) CallPushLabelObject by simp
    from PushLabelObject_keys[OF this, of h a] obtain K where
      "m_BackgroundValue lm \<notin> K"
      "keys_within lm K (snd (state_after (PushLabelObject h lm (Some a))))" by blast
    then show ?thesis
      using keys_within_excluded[OF assms(1)] CallPushLabelObject Some by simp
  qed
next
  case (CallAddPixel idx label)
  then show ?thesis
    using keys_within_excluded[OF assms(1) AddPixel_keys[of lm label h idx]] by simp
next
  case (CallSetPixel idx label)
  then show ?thesis
    using keys_within_excluded[OF assms(1) SetPixel_keys[of lm label h idx]] by simp
next
  case (CallSetLine idx len label)
  then show ?thesis
    using keys_within_excluded[OF assms(1) SetLine_keys[of lm label h idx len]] by simp
next
  case (CallRemovePixel idx label)
  then show ?thesis
    using keys_within_excluded[OF assms(1) RemovePixel_keys[of lm h idx label]] by simp
next
  case (CallRemoveLabel label)
  have "snd (state_after (with_heap h (RemoveLabel lm label))) = state_after (RemoveLabel lm label)"
    by (auto simp: with_heap_def state_after_def split: sum.splits)
  then show ?thesis
    using keys_within_excluded[OF assms(1) RemoveLabel_keys[of lm label]] CallRemoveLabel by simp
next
  case (CallGraft data)
  show ?thesis
  proof (cases data)
    case None
    then show ?thesis using assms(1) CallGraft
      by (simp add: Graft_def with_heap_def state_after_def)
  next
    case (Some d)
    show ?thesis
    proof (cases d)
      case (LabelMapData imgData)
      then have "background_excluded imgData" using assms(2) CallGraft Some by simp
      then show ?thesis using CallGraft Some LabelMapData
        by (simp add: Graft_def with_heap_def state_after_def background_excluded_def)
    next
      case OtherData
      then show ?thesis using assms(1) CallGraft Some
        by (simp add: Graft_def with_heap_def state_after_def)
    qed
  qed
next
  case CallClearLabels
  then show ?thesis using assms(1)
    by (simp add: ClearLabels_def state_after_def background_excluded_def Modified_def keys_def)
qed

lemma run_keeps_background_out:
  "background_excluded (snd s) \<Longrightarrow> admissible keeps_background_out s cs
     \<Longrightarrow> background_excluded (snd (run s cs))"
proof (induction cs arbitrary: s)
  case Nil
  then show ?case by simp
next
  case (Cons c cs)
  obtain h lm where s: "s = (h, lm)" by (cases s)
  have "background_excluded (snd (state_after (perform s c)))"
    using perform_keeps_background_out[of lm h c] Cons.prems unfolding s by simp
  then show ?case using Cons.IH[of "state_after (perform s c)"] Cons.prems by simp
qed

lemma admissible_take: "admissible ok s cs \<Longrightarrow> admissible ok s (take n cs)"
proof (induction cs arbitrary: s n)
  case Nil
  then show ?case by simp
next
  case (Cons c cs)
  then show ?case by (cases n) auto
qed

lemma background_excluded_ctor: "background_excluded LabelMap_ctor"
  by (simp add: LabelMap_ctor_eq background_excluded_def keys_def)

lemma admissible_respects_background:
  "admissible respects_background s cs
     \<Longrightarrow> admissible proper_handover s cs \<and> admissible keeps_background_out s cs"
  by (induction cs arbitrary: s) (auto simp: respects_background_def)

text \<open>
  C3, amended. Starting from a freshly constructed label map, after every sequence of
  calls of \<open>AddLabelObject\<close>, \<open>PushLabelObject\<close>, \<open>AddPixel\<close>, \<open>SetPixel\<close>, \<open>SetLine\<close>,
  \<open>RemovePixel\<close>, \<open>RemoveLabel\<close>, \<open>Graft\<close> and \<open>ClearLabels\<close>, and after every prefix of
  it, the background value is no key of the container, and no call of the sequence runs
  into undefined behaviour, provided that
  \<^item> no \<open>AddLabelObject\<close> call is given an object whose label is the background value;
  \<^item> no \<open>PushLabelObject\<close> call is given an object that is stored in the container
    already, and every \<open>PushLabelObject\<close> call assigns a label (the outcome of a push
    whose search loop finds no gap is left open);
  \<^item> every \<open>Graft\<close> source is well formed and does not hold its own background value as a
    key.
  As in the program, every object handed over has been constructed before the call: its
  address is below \<open>next_free\<close>.
\<close>

theorem background_excluded_along_admissible_calls:
  "admissible respects_background (h0, LabelMap_ctor) cs \<longrightarrow>
     well_defined (h0, LabelMap_ctor) cs
     \<and> background_excluded (snd (run (h0, LabelMap_ctor) (take n cs)))"
proof
  assume "admissible respects_background (h0, LabelMap_ctor :: ('a word) LabelMap) cs"
  then have p: "admissible proper_handover (h0, LabelMap_ctor :: ('a word) LabelMap) cs"
    and k: "admissible keeps_background_out (h0, LabelMap_ctor :: ('a word) LabelMap) cs"
    using admissible_respects_background by blast+
  have "well_defined (h0, LabelMap_ctor) cs"
    using run_well_formed[of "(h0, LabelMap_ctor)" cs] p by (simp add: well_formed_ctor)
  moreover have "background_excluded (snd (run (h0, LabelMap_ctor) (take n cs)))"
    using run_keeps_background_out[of "(h0, LabelMap_ctor)" "take n cs"]
      admissible_take[OF k, of n]
    by (simp add: background_excluded_ctor)
  ultimately show "well_defined (h0, LabelMap_ctor) cs
     \<and> background_excluded (snd (run (h0, LabelMap_ctor) (take n cs)))" by blast
qed

text \<open>
  C3 as stated fails: \<open>AddLabelObject\<close> stores an object under the label it carries and
  does not compare it with the background value. On a fresh label map (background 0) the
  call with a default-constructed object (label 0) makes 0 a key.
\<close>

theorem background_can_become_key:
  "\<not> background_excluded
       (snd (run (heap0, LabelMap_ctor :: (8 word) LabelMap) [CallAddLabelObject (Some 0)]))"
  by (simp add: LabelMap_ctor_eq AddLabelObject_def state_after_def heap0_def
      background_excluded_def keys_def Modified_def GetLabel_def deref_def LabelObject_New_def)


lemma calls_example_admissible: "admissible respects_background (heap0, LabelMap_ctor) calls_example"
  by (simp add: eval_defs)

theorem background_excluded_along_admissible_calls_witness:
  "admissible respects_background (heap0, LabelMap_ctor) calls_example
   \<and> well_defined (heap0, LabelMap_ctor) calls_example
   \<and> background_excluded (snd (run (heap0, LabelMap_ctor) calls_example))"
  using background_excluded_along_admissible_calls[of heap0 calls_example 4] calls_example_admissible
  by (simp add: calls_example_def)

subsection \<open>Consistent label maps\<close>

lemma consistent_iff:
  "consistent h lm \<longleftrightarrow>
     ordered (m_LabelObjectContainer lm)
     \<and> (\<forall>e\<in>set (m_LabelObjectContainer lm).
           GetLabel (deref h (snd e)) = fst e \<and> snd e < next_free h
           \<and> m_Region (deref h (snd e)) \<noteq> {})
     \<and> (\<forall>e\<in>set (m_LabelObjectContainer lm). \<forall>e'\<in>set (m_LabelObjectContainer lm).
           snd e = snd e' \<longrightarrow> e = e')
     \<and> m_BackgroundValue lm \<notin> keys (m_LabelObjectContainer lm)"
proof -
  have d: "ordered c \<Longrightarrow> distinct (map snd c) \<longleftrightarrow> (\<forall>e\<in>set c. \<forall>e'\<in>set c. snd e = snd e' \<longrightarrow> e = e')"
    for c :: "('a \<times> addr) list"
  proof -
    assume "ordered c"
    then have "distinct (map fst c)" by (rule ordered_distinct_keys)
    then have "distinct c" by (simp add: distinct_map)
    then show ?thesis by (auto simp: distinct_map inj_on_def)
  qed
  show ?thesis
    unfolding consistent_def well_formed_def no_empty_object_def background_excluded_def
      list_all_iff Empty_def
    using d[of "m_LabelObjectContainer lm"] by blast
qed

lemma consistent_heap_frame:
  assumes "consistent h lm"
    "\<forall>e\<in>set (m_LabelObjectContainer lm). deref h' (snd e) = deref h (snd e)"
    "next_free h \<le> next_free h'"
  shows "consistent h' (Modified lm)" "consistent h' lm"
proof -
  show "consistent h' lm"
    using assms unfolding consistent_iff by (auto simp: less_le_trans)
  then show "consistent h' (Modified lm)"
    unfolding consistent_iff by (simp add: Modified_def)
qed

lemma consistent_Modified: "consistent h (Modified lm) = consistent h lm"
  unfolding consistent_iff by (simp add: Modified_def)

lemma consistent_assign:
  assumes c: "consistent h lm"
    and a: "a < next_free h" "a \<notin> snd ` set (m_LabelObjectContainer lm)"
      "\<not> Empty (deref h a)" "GetLabel (deref h a) \<noteq> m_BackgroundValue lm"
  shows "consistent h (lm \<lparr> m_LabelObjectContainer :=
            container_assign (m_LabelObjectContainer lm) (GetLabel (deref h a)) a \<rparr>)"
proof -
  have o: "ordered (m_LabelObjectContainer lm)" using c by (simp add: consistent_iff)
  note s = set_container_assign[OF o, of "GetLabel (deref h a)" a]
  show ?thesis
    unfolding consistent_iff
  proof (intro conjI)
    show "ordered (m_LabelObjectContainer (lm \<lparr> m_LabelObjectContainer :=
            container_assign (m_LabelObjectContainer lm) (GetLabel (deref h a)) a \<rparr>))"
      using o by (simp add: ordered_container_assign)
  next
    show "\<forall>e\<in>set (m_LabelObjectContainer (lm \<lparr> m_LabelObjectContainer :=
            container_assign (m_LabelObjectContainer lm) (GetLabel (deref h a)) a \<rparr>)).
         GetLabel (deref h (snd e)) = fst e \<and> snd e < next_free h
           \<and> m_Region (deref h (snd e)) \<noteq> {}"
      using c a unfolding consistent_iff by (auto simp: s Empty_def)
  next
    show "\<forall>e\<in>set (m_LabelObjectContainer (lm \<lparr> m_LabelObjectContainer :=
            container_assign (m_LabelObjectContainer lm) (GetLabel (deref h a)) a \<rparr>)).
          \<forall>e'\<in>set (m_LabelObjectContainer (lm \<lparr> m_LabelObjectContainer :=
            container_assign (m_LabelObjectContainer lm) (GetLabel (deref h a)) a \<rparr>)).
          snd e = snd e' \<longrightarrow> e = e'"
      using c a(2) unfolding consistent_iff by (auto simp: s image_iff)
  next
    show "m_BackgroundValue (lm \<lparr> m_LabelObjectContainer :=
            container_assign (m_LabelObjectContainer lm) (GetLabel (deref h a)) a \<rparr>)
         \<notin> keys (m_LabelObjectContainer (lm \<lparr> m_LabelObjectContainer :=
            container_assign (m_LabelObjectContainer lm) (GetLabel (deref h a)) a \<rparr>))"
      using c a(4) unfolding consistent_iff by (auto simp: keys_container_assign)
  qed
qed

lemma AddLabelObject_consistent:
  assumes "consistent h lm" "fresh_object h lm a" "GetLabel (deref h a) \<noteq> m_BackgroundValue lm"
  shows "\<exists>lm'. AddLabelObject h lm (Some a) = Inr (h, lm') \<and> consistent h lm'"
  using consistent_assign[of h lm a] assms
  by (simp add: AddLabelObject_def fresh_object_def consistent_Modified)


lemma RemovePixel_it_consistent:
  assumes c: "consistent h lm" and e: "e \<in> set (m_LabelObjectContainer lm)"
  shows "\<exists>h1 lm1. RemovePixel_it h lm (Some e) idx emit = Inr (h1, lm1)
           \<and> consistent h1 lm1
           \<and> repainted idx h lm h1 lm1
           \<and> m_BackgroundValue lm1 = m_BackgroundValue lm
           \<and> (\<forall>b. b \<noteq> snd e \<longrightarrow> deref h1 b = deref h b)
           \<and> (e \<in> set (m_LabelObjectContainer lm1) \<longrightarrow> \<not> HasIndex (deref h1 (snd e)) idx)"
proof -
  define a where "a = snd e"
  define ob where "ob = deref h a"
  define ob1 where "ob1 = ob \<lparr> m_Region := m_Region ob - {idx} \<rparr>"
  define h1 where "h1 = store h a ob1"
  have unf: "RemovePixel_it h lm (Some e) idx emit =
      (if idx \<in> m_Region ob then
         (case (if Empty (deref h1 a) then RemoveLabelObject h1 lm (Some a) else Inr lm) of
            Inl (err, lm1) \<Rightarrow> Inl (err, (h1, lm1))
          | Inr lm1 \<Rightarrow> Inr (h1, if emit then Modified lm1 else lm1))
       else Inr (h1, lm))"
    unfolding h1_def ob1_def ob_def a_def
    by (simp add: RemovePixel_it_def RemoveIndex_def Let_def)
  have o: "ordered (m_LabelObjectContainer lm)" using c by (simp add: consistent_iff)
  have lab: "GetLabel ob = fst e" and ne: "m_Region ob \<noteq> {}"
    using c e by (auto simp: consistent_iff ob_def a_def)
  have "fst e \<in> keys (m_LabelObjectContainer lm)" using e by (simp add: keys_def)
  then have nbg: "fst e \<noteq> m_BackgroundValue lm"
    using c by (auto simp: consistent_iff)
  have other: "\<And>e'. e' \<in> set (m_LabelObjectContainer lm) \<Longrightarrow> e' \<noteq> e \<Longrightarrow> snd e' \<noteq> a"
    using c e unfolding consistent_iff a_def by blast
  have d1: "deref h1 a = ob1" by (simp add: h1_def deref_store)
  have d2: "\<And>b. b \<noteq> a \<Longrightarrow> deref h1 b = deref h b" by (simp add: h1_def deref_store)
  have nf: "next_free h1 = next_free h" by (simp add: h1_def next_free_store)
  have lab1: "GetLabel ob1 = fst e" using lab by (simp add: ob1_def GetLabel_def)
  define lmE where "lmE = lm \<lparr> m_LabelObjectContainer :=
                      container_erase (m_LabelObjectContainer lm) (fst e) \<rparr>"
  have sE: "set (m_LabelObjectContainer lmE) = set (m_LabelObjectContainer lm) - {e}"
    using ordered_same_key[OF o _ e] e by (auto simp: lmE_def set_container_erase)
  have cE: "consistent h1 lmE"
    unfolding consistent_iff
  proof (intro conjI)
    show "ordered (m_LabelObjectContainer lmE)"
      using o by (simp add: lmE_def ordered_container_erase)
    show "\<forall>e\<in>set (m_LabelObjectContainer lmE).
           GetLabel (deref h1 (snd e)) = fst e \<and> snd e < next_free h1
           \<and> m_Region (deref h1 (snd e)) \<noteq> {}"
      using c other d2 unfolding sE nf consistent_iff by auto
    show "\<forall>e\<in>set (m_LabelObjectContainer lmE). \<forall>e'\<in>set (m_LabelObjectContainer lmE).
           snd e = snd e' \<longrightarrow> e = e'"
      using c unfolding sE consistent_iff by auto
    show "m_BackgroundValue lmE \<notin> keys (m_LabelObjectContainer lmE)"
      using c unfolding consistent_iff by (auto simp: lmE_def keys_container_erase)
  qed
  have rE: "repainted idx h lm h1 lmE"
    unfolding repainted_def list_all_iff sE using other d2 by auto
  have c1: "m_Region ob1 \<noteq> {} \<Longrightarrow> consistent h1 lm"
    unfolding consistent_iff
  proof (intro conjI)
    assume n1: "m_Region ob1 \<noteq> {}"
    show "ordered (m_LabelObjectContainer lm)" by (rule o)
    show "\<forall>e\<in>set (m_LabelObjectContainer lm).
           GetLabel (deref h1 (snd e)) = fst e \<and> snd e < next_free h1
           \<and> m_Region (deref h1 (snd e)) \<noteq> {}"
    proof
      fix e' assume e': "e' \<in> set (m_LabelObjectContainer lm)"
      show "GetLabel (deref h1 (snd e')) = fst e' \<and> snd e' < next_free h1
           \<and> m_Region (deref h1 (snd e')) \<noteq> {}"
      proof (cases "e' = e")
        case True
        then show ?thesis using d1 lab1 n1 c e unfolding consistent_iff nf a_def by auto
      next
        case False
        then show ?thesis using other[OF e' False] d2 c e' unfolding consistent_iff nf by auto
      qed
    qed
    show "\<forall>e\<in>set (m_LabelObjectContainer lm). \<forall>e'\<in>set (m_LabelObjectContainer lm).
           snd e = snd e' \<longrightarrow> e = e'"
      using c unfolding consistent_iff by auto
    show "m_BackgroundValue lm \<notin> keys (m_LabelObjectContainer lm)"
      using c unfolding consistent_iff by auto
  qed
  have r1: "repainted idx h lm h1 lm"
    unfolding repainted_def list_all_iff
  proof (intro conjI ballI)
    show "set (m_LabelObjectContainer lm) \<subseteq> set (m_LabelObjectContainer lm)" by simp
    fix e' assume e': "e' \<in> set (m_LabelObjectContainer lm)"
    show "m_Region (deref h1 (snd e')) - {idx} = m_Region (deref h (snd e')) - {idx}"
    proof (cases "e' = e")
      case True
      then show ?thesis using d1 by (simp add: a_def[symmetric] ob1_def ob_def)
    next
      case False
      then show ?thesis using other[OF e' False] d2 by simp
    qed
  qed
  have noidx: "\<not> HasIndex (deref h1 (snd e)) idx"
    using d1 by (simp add: HasIndex_def a_def[symmetric] ob1_def)
  have fr: "\<forall>b. b \<noteq> snd e \<longrightarrow> deref h1 b = deref h b" using d2 by (simp add: a_def)
  have emp: "Empty (deref h1 a) \<longleftrightarrow> m_Region ob1 = {}"
    using d1 by (simp add: Empty_def)
  have rl: "RemoveLabelObject h1 lm (Some a) = Inr (Modified lmE)"
    using d1 lab1 nbg by (auto simp: RemoveLabelObject_def RemoveLabel_def lmE_def)
  have bgE: "m_BackgroundValue lmE = m_BackgroundValue lm" by (simp add: lmE_def)
  show ?thesis
  proof (cases "idx \<in> m_Region ob")
    case False
    then have "m_Region ob1 \<noteq> {}" using ne by (simp add: ob1_def)
    moreover have "RemovePixel_it h lm (Some e) idx emit = Inr (h1, lm)"
      using False by (simp add: unf)
    ultimately show ?thesis using c1 r1 fr noidx by blast
  next
    case True
    show ?thesis
    proof (cases "m_Region ob1 = {}")
      case e1: True
      have "RemovePixel_it h lm (Some e) idx emit
              = Inr (h1, if emit then Modified (Modified lmE) else Modified lmE)"
        using True e1 emp rl by (simp add: unf)
      moreover have "consistent h1 (if emit then Modified (Modified lmE) else Modified lmE)"
        using cE by (simp add: consistent_Modified)
      moreover have "repainted idx h lm h1 (if emit then Modified (Modified lmE) else Modified lmE)"
        using rE by (simp add: repainted_def Modified_def)
      moreover have "e \<notin> set (m_LabelObjectContainer
               (if emit then Modified (Modified lmE) else Modified lmE))"
        using sE by (simp add: Modified_def)
      moreover have "m_BackgroundValue (if emit then Modified (Modified lmE) else Modified lmE)
              = m_BackgroundValue lm"
        using bgE by (simp add: Modified_def)
      ultimately show ?thesis using fr by blast
    next
      case e1: False
      have "RemovePixel_it h lm (Some e) idx emit
              = Inr (h1, if emit then Modified lm else lm)"
        using True e1 emp by (simp add: unf)
      moreover have "consistent h1 (if emit then Modified lm else lm)"
        using c1[OF e1] by (simp add: consistent_Modified)
      moreover have "repainted idx h lm h1 (if emit then Modified lm else lm)"
        using r1 by (simp add: repainted_def Modified_def)
      moreover have "m_BackgroundValue (if emit then Modified lm else lm) = m_BackgroundValue lm"
        by (simp add: Modified_def)
      ultimately show ?thesis using fr noidx by blast
    qed
  qed
qed


lemma consistent_store_entry:
  assumes c: "consistent h lm" and e: "e \<in> set (m_LabelObjectContainer lm)"
    and ob: "GetLabel ob = fst e" "m_Region ob \<noteq> {}"
  shows "consistent (store h (snd e) ob) lm"
  unfolding consistent_iff
proof (intro conjI)
  show "ordered (m_LabelObjectContainer lm)" using c by (simp add: consistent_iff)
  show "\<forall>e\<in>set (m_LabelObjectContainer lm). \<forall>e'\<in>set (m_LabelObjectContainer lm).
           snd e = snd e' \<longrightarrow> e = e'"
    using c unfolding consistent_iff by auto
  show "m_BackgroundValue lm \<notin> keys (m_LabelObjectContainer lm)"
    using c unfolding consistent_iff by auto
  show "\<forall>e'\<in>set (m_LabelObjectContainer lm).
           GetLabel (deref (store h (snd e) ob) (snd e')) = fst e'
           \<and> snd e' < next_free (store h (snd e) ob)
           \<and> m_Region (deref (store h (snd e) ob) (snd e')) \<noteq> {}"
  proof
    fix e' assume e': "e' \<in> set (m_LabelObjectContainer lm)"
    have "snd e' = snd e \<Longrightarrow> e' = e" using c e e' unfolding consistent_iff by blast
    then show "GetLabel (deref (store h (snd e) ob) (snd e')) = fst e'
           \<and> snd e' < next_free (store h (snd e) ob)
           \<and> m_Region (deref (store h (snd e) ob) (snd e')) \<noteq> {}"
      using c e' ob unfolding consistent_iff by (auto simp: deref_store next_free_store)
  qed
qed

lemma AddPixel_it_Some_consistent:
  assumes c: "consistent h lm" and e: "e \<in> set (m_LabelObjectContainer lm)"
    and l: "label \<noteq> m_BackgroundValue lm"
  shows "\<exists>h1 lm1. AddPixel_it h lm (Some e) idx label = Inr (h1, lm1)
           \<and> consistent h1 lm1
           \<and> repainted idx h lm h1 lm1
           \<and> m_BackgroundValue lm1 = m_BackgroundValue lm
           \<and> m_LabelObjectContainer lm1 = m_LabelObjectContainer lm
           \<and> HasIndex (deref h1 (snd e)) idx
           \<and> (\<forall>b. b \<noteq> snd e \<longrightarrow> deref h1 b = deref h b)"
proof -
  define h1 where "h1 = store h (snd e) (AddIndex (deref h (snd e)) idx)"
  have eq: "AddPixel_it h lm (Some e) idx label = Inr (h1, Modified lm)"
    using l by (simp add: AddPixel_it_def h1_def)
  have "GetLabel (AddIndex (deref h (snd e)) idx) = fst e"
    using c e by (auto simp: consistent_iff GetLabel_def AddIndex_def)
  moreover have "m_Region (AddIndex (deref h (snd e)) idx) \<noteq> {}" by (simp add: AddIndex_def)
  ultimately have "consistent h1 lm"
    unfolding h1_def using consistent_store_entry[OF c e] by blast
  then have c1: "consistent h1 (Modified lm)" by (simp add: consistent_Modified)
  have r: "repainted idx h lm h1 (Modified lm)"
    unfolding repainted_def list_all_iff
    by (auto simp: Modified_def h1_def deref_store AddIndex_def)
  have hi: "HasIndex (deref h1 (snd e)) idx"
    by (simp add: h1_def deref_store HasIndex_def AddIndex_def)
  have fr: "\<forall>b. b \<noteq> snd e \<longrightarrow> deref h1 b = deref h b" by (simp add: h1_def deref_store)
  show ?thesis using eq c1 r hi fr by (auto simp: Modified_def)
qed

lemma consistent_new_object:
  assumes c: "consistent h lm"
    and h': "\<forall>b. b \<noteq> next_free h \<longrightarrow> deref h' b = deref h b" "next_free h' = Suc (next_free h)"
    and ob: "GetLabel (deref h' (next_free h)) = label" "m_Region (deref h' (next_free h)) \<noteq> {}"
    and l: "label \<noteq> m_BackgroundValue lm"
  shows "\<exists>lm'. AddLabelObject h' lm (Some (next_free h)) = Inr (h', lm')
           \<and> consistent h' lm'
           \<and> m_BackgroundValue lm' = m_BackgroundValue lm
           \<and> set (m_LabelObjectContainer lm') =
               insert (label, next_free h) {e \<in> set (m_LabelObjectContainer lm). fst e \<noteq> label}"
proof -
  have old: "\<forall>e\<in>set (m_LabelObjectContainer lm). snd e \<noteq> next_free h"
    using c unfolding consistent_iff by auto
  then have "\<forall>e\<in>set (m_LabelObjectContainer lm). deref h' (snd e) = deref h (snd e)"
    using h'(1) by auto
  from consistent_heap_frame(2)[OF c this] have c': "consistent h' lm" using h'(2) by simp
  have f: "fresh_object h' lm (next_free h)"
    using old ob(2) h'(2) by (auto simp: fresh_object_def Empty_def)
  have o: "ordered (m_LabelObjectContainer lm)" using c by (simp add: consistent_iff)
  have "consistent h' (lm \<lparr> m_LabelObjectContainer :=
            container_assign (m_LabelObjectContainer lm) (GetLabel (deref h' (next_free h)))
              (next_free h) \<rparr>)"
    using consistent_assign[OF c', of "next_free h"] f ob(1) l by (simp add: fresh_object_def)
  then have cm: "consistent h' (Modified (lm \<lparr> m_LabelObjectContainer :=
            container_assign (m_LabelObjectContainer lm) label (next_free h) \<rparr>))"
    using ob(1) by (simp add: consistent_Modified)
  have "AddLabelObject h' lm (Some (next_free h)) =
          Inr (h', Modified (lm \<lparr> m_LabelObjectContainer :=
            container_assign (m_LabelObjectContainer lm) label (next_free h) \<rparr>))"
    using ob(1) by (simp add: AddLabelObject_def)
  moreover have "m_BackgroundValue (Modified (lm \<lparr> m_LabelObjectContainer :=
            container_assign (m_LabelObjectContainer lm) label (next_free h) \<rparr>))
          = m_BackgroundValue lm"
    by (simp add: Modified_def)
  moreover have "set (m_LabelObjectContainer (Modified (lm \<lparr> m_LabelObjectContainer :=
            container_assign (m_LabelObjectContainer lm) label (next_free h) \<rparr>)))
          = insert (label, next_free h) {e \<in> set (m_LabelObjectContainer lm). fst e \<noteq> label}"
    using set_container_assign[OF o, of label "next_free h"] by (simp add: Modified_def)
  ultimately show ?thesis using cm by blast
qed

lemma AddPixel_it_None_consistent:
  assumes c: "consistent h lm" and l: "label \<noteq> m_BackgroundValue lm"
  shows "\<exists>h' lm'. AddPixel_it h lm None idx label = Inr (h', lm')
           \<and> consistent h' lm'
           \<and> m_BackgroundValue lm' = m_BackgroundValue lm
           \<and> set (m_LabelObjectContainer lm') =
               insert (label, next_free h) {e \<in> set (m_LabelObjectContainer lm). fst e \<noteq> label}
           \<and> m_Region (deref h' (next_free h)) = {idx}
           \<and> (\<forall>b. b \<noteq> next_free h \<longrightarrow> deref h' b = deref h b)"
proof -
  define n where "n = next_free h"
  define h0 where "h0 = snd (New h)"
  define h1 where "h1 = store h0 n (SetLabel (deref h0 n) label)"
  define h2 where "h2 = store h1 n (AddIndex (deref h1 n) idx)"
  have new: "New h = (n, h0)" by (simp add: New_def n_def h0_def)
  have eq: "AddPixel_it h lm None idx label = AddLabelObject h2 lm (Some n)"
    using l unfolding h2_def h1_def by (simp add: AddPixel_it_def new Let_def)
  have d: "deref h2 n = \<lparr> m_Label = label, m_Region = {idx} \<rparr>"
    by (simp add: h2_def h1_def h0_def New_def n_def deref_def store_def SetLabel_def
        AddIndex_def LabelObject_New_def)
  have fr: "\<forall>b. b \<noteq> n \<longrightarrow> deref h2 b = deref h b"
    by (simp add: h2_def h1_def h0_def New_def n_def deref_def store_def)
  have nf: "next_free h2 = Suc n"
    by (simp add: h2_def h1_def h0_def New_def n_def store_def)
  from consistent_new_object[OF c fr[unfolded n_def] nf[unfolded n_def], of label] d l
  obtain lm' where "AddLabelObject h2 lm (Some n) = Inr (h2, lm')" "consistent h2 lm'"
    "m_BackgroundValue lm' = m_BackgroundValue lm"
    "set (m_LabelObjectContainer lm') =
       insert (label, n) {e \<in> set (m_LabelObjectContainer lm). fst e \<noteq> label}"
    by (auto simp: n_def GetLabel_def)
  then show ?thesis using eq d fr unfolding n_def by auto
qed


lemma repainted_trans:
  "repainted idx h lm h1 lm1 \<Longrightarrow> repainted idx h1 lm1 h2 lm2 \<Longrightarrow> repainted idx h lm h2 lm2"
  unfolding repainted_def list_all_iff by (metis subset_iff)

lemma consistent_same_address:
  "consistent h lm \<Longrightarrow> e \<in> set (m_LabelObjectContainer lm)
     \<Longrightarrow> e' \<in> set (m_LabelObjectContainer lm) \<Longrightarrow> snd e = snd e' \<Longrightarrow> e = e'"
  unfolding consistent_iff by blast

lemma consistent_key_not_background:
  "consistent h lm \<Longrightarrow> e \<in> set (m_LabelObjectContainer lm) \<Longrightarrow> fst e \<noteq> m_BackgroundValue lm"
  unfolding consistent_iff keys_def by force

lemma SetPixel_loop_consistent:
  assumes "consistent h lm" "set rest \<subseteq> set (m_LabelObjectContainer lm)"
    "\<forall>e\<in>set (m_LabelObjectContainer lm).
        fst e \<noteq> iLabel \<longrightarrow> e \<notin> set rest \<longrightarrow> \<not> HasIndex (deref h (snd e)) idx"
    "distinct rest"
  shows "\<exists>h' lm' nl'. SetPixel_loop h lm rest idx iLabel nl = Inr ((h', lm'), nl')
           \<and> consistent h' lm'
           \<and> repainted idx h lm h' lm'
           \<and> m_BackgroundValue lm' = m_BackgroundValue lm
           \<and> (\<forall>e\<in>set (m_LabelObjectContainer lm').
                 fst e \<noteq> iLabel \<longrightarrow> \<not> HasIndex (deref h' (snd e)) idx)"
  using assms
proof (induction h lm rest idx iLabel nl rule: SetPixel_loop.induct)
  case (1 h lm idx iLabel newLabel)
  have "repainted idx h lm h lm" by (simp add: repainted_def list_all_iff)
  then show ?case using 1 by auto
next
  case (2 h lm it rest idx iLabel newLabel)
  have c: "consistent h lm" by fact
  have itc: "it \<in> set (m_LabelObjectContainer lm)" using "2.prems"(2) by simp
  have Q: "\<And>e. e \<in> set (m_LabelObjectContainer lm) \<Longrightarrow> fst e \<noteq> iLabel
             \<Longrightarrow> e \<notin> set (it # rest) \<Longrightarrow> \<not> HasIndex (deref h (snd e)) idx"
    using "2.prems"(3) by blast
  show ?case
  proof (cases "fst it \<noteq> iLabel")
    case True
    from RemovePixel_it_consistent[OF c itc, of idx "iLabel = m_BackgroundValue lm"]
    obtain h1 lm1 where
      eq: "RemovePixel_it h lm (Some it) idx (iLabel = m_BackgroundValue lm) = Inr (h1, lm1)"
      and c1: "consistent h1 lm1"
      and r1: "repainted idx h lm h1 lm1"
      and b1: "m_BackgroundValue lm1 = m_BackgroundValue lm"
      and fr: "\<forall>b. b \<noteq> snd it \<longrightarrow> deref h1 b = deref h b"
      and gone: "it \<in> set (m_LabelObjectContainer lm1) \<longrightarrow> \<not> HasIndex (deref h1 (snd it)) idx"
      by blast
    from RemovePixel_it_well_formed[OF consistent_well_formed[OF c] itc,
        of idx "iLabel = m_BackgroundValue lm"] eq
    have keep: "set (m_LabelObjectContainer lm) - {it} \<subseteq> set (m_LabelObjectContainer lm1)"
      by auto
    have v: "iterator_valid (m_LabelObjectContainer lm1) rest"
    proof (cases rest)
      case Nil
      then show ?thesis by (simp add: iterator_valid_def)
    next
      case (Cons nxt more)
      then have "nxt \<in> set (m_LabelObjectContainer lm)" "nxt \<noteq> it"
        using "2.prems"(2,4) by auto
      then show ?thesis using keep Cons by (auto simp: iterator_valid_def)
    qed
    define rest1 where "rest1 = filter (\<lambda>e. e \<in> set (m_LabelObjectContainer lm1)) rest"
    have d1: "distinct rest1" using "2.prems"(4) by (simp add: rest1_def)
    have sub: "set (m_LabelObjectContainer lm1) \<subseteq> set (m_LabelObjectContainer lm)"
      using r1 by (simp add: repainted_def)
    have s1: "set rest1 \<subseteq> set (m_LabelObjectContainer lm1)" by (auto simp: rest1_def)
    have Q1: "\<forall>e\<in>set (m_LabelObjectContainer lm1).
        fst e \<noteq> iLabel \<longrightarrow> e \<notin> set rest1 \<longrightarrow> \<not> HasIndex (deref h1 (snd e)) idx"
    proof (intro ballI impI)
      fix e assume e: "e \<in> set (m_LabelObjectContainer lm1)" and k: "fst e \<noteq> iLabel"
        and n: "e \<notin> set rest1"
      have ec: "e \<in> set (m_LabelObjectContainer lm)" using e sub by blast
      have nr: "e \<notin> set rest" using n e by (simp add: rest1_def)
      show "\<not> HasIndex (deref h1 (snd e)) idx"
      proof (cases "e = it")
        case True
        then show ?thesis using gone e by simp
      next
        case False
        then have "snd e \<noteq> snd it" using consistent_same_address[OF c ec itc] by blast
        then have "deref h1 (snd e) = deref h (snd e)" using fr by simp
        then show ?thesis using Q[OF ec k] False nr by simp
      qed
    qed
    from "2.IH"(1)[OF True eq refl v c1 s1[unfolded rest1_def] Q1[unfolded rest1_def]
        d1[unfolded rest1_def]]
    obtain h' lm' nl' where
      l: "SetPixel_loop h1 lm1 rest1 idx iLabel newLabel = Inr ((h', lm'), nl')"
      and c': "consistent h' lm'"
      and r': "repainted idx h1 lm1 h' lm'"
      and b': "m_BackgroundValue lm' = m_BackgroundValue lm1"
      and p': "\<forall>e\<in>set (m_LabelObjectContainer lm').
                 fst e \<noteq> iLabel \<longrightarrow> \<not> HasIndex (deref h' (snd e)) idx"
      unfolding rest1_def by blast
    have "SetPixel_loop h lm (it # rest) idx iLabel newLabel = Inr ((h', lm'), nl')"
      using True eq l v by (simp add: rest1_def)
    then show ?thesis using c' repainted_trans[OF r1 r'] b' b1 p' by auto
  next
    case False
    then have il: "iLabel \<noteq> m_BackgroundValue lm"
      using consistent_key_not_background[OF c itc] by simp
    from AddPixel_it_Some_consistent[OF c itc il, of idx]
    obtain h1 lm1 where
      eq: "AddPixel_it h lm (Some it) idx iLabel = Inr (h1, lm1)"
      and c1: "consistent h1 lm1"
      and r1: "repainted idx h lm h1 lm1"
      and b1: "m_BackgroundValue lm1 = m_BackgroundValue lm"
      and same: "m_LabelObjectContainer lm1 = m_LabelObjectContainer lm"
      and fr: "\<forall>b. b \<noteq> snd it \<longrightarrow> deref h1 b = deref h b"
      by blast
    have s1: "set rest \<subseteq> set (m_LabelObjectContainer lm1)" using "2.prems"(2) same by simp
    have Q1: "\<forall>e\<in>set (m_LabelObjectContainer lm1).
        fst e \<noteq> iLabel \<longrightarrow> e \<notin> set rest \<longrightarrow> \<not> HasIndex (deref h1 (snd e)) idx"
    proof (intro ballI impI)
      fix e assume e: "e \<in> set (m_LabelObjectContainer lm1)" and k: "fst e \<noteq> iLabel"
        and n: "e \<notin> set rest"
      have ec: "e \<in> set (m_LabelObjectContainer lm)" using e same by simp
      have ne: "e \<noteq> it" using k False by auto
      then have "snd e \<noteq> snd it" using consistent_same_address[OF c ec itc] by blast
      then have "deref h1 (snd e) = deref h (snd e)" using fr by simp
      then show "\<not> HasIndex (deref h1 (snd e)) idx" using Q[OF ec k] ne n by simp
    qed
    have d1: "distinct rest" using "2.prems"(4) by simp
    from "2.IH"(2)[OF _ eq refl c1 s1 Q1 d1] False
    obtain h' lm' nl' where
      l: "SetPixel_loop h1 lm1 rest idx iLabel False = Inr ((h', lm'), nl')"
      and c': "consistent h' lm'"
      and r': "repainted idx h1 lm1 h' lm'"
      and b': "m_BackgroundValue lm' = m_BackgroundValue lm1"
      and p': "\<forall>e\<in>set (m_LabelObjectContainer lm').
                 fst e \<noteq> iLabel \<longrightarrow> \<not> HasIndex (deref h' (snd e)) idx"
      by blast
    have "SetPixel_loop h lm (it # rest) idx iLabel newLabel = Inr ((h', lm'), nl')"
      using False eq l by simp
    then show ?thesis using c' repainted_trans[OF r1 r'] b' b1 p' by auto
  qed
qed

subsection \<open>SetPixel on a consistent label map\<close>

lemma owners_le_one_iff:
  "ordered (m_LabelObjectContainer lm) \<Longrightarrow>
     length (owners h lm p) \<le> 1 \<longleftrightarrow>
       (\<forall>e\<in>set (m_LabelObjectContainer lm). \<forall>e'\<in>set (m_LabelObjectContainer lm).
          HasIndex (deref h (snd e)) p \<longrightarrow> HasIndex (deref h (snd e')) p \<longrightarrow> e = e')"
proof -
  assume o: "ordered (m_LabelObjectContainer lm)"
  have d: "distinct (owners h lm p)" using ordered_distinct[OF o] by (simp add: owners_def)
  have s: "set (owners h lm p) = {e \<in> set (m_LabelObjectContainer lm). HasIndex (deref h (snd e)) p}"
    by (auto simp: owners_def)
  have "length (owners h lm p) \<le> 1 \<longleftrightarrow> (\<forall>x\<in>set (owners h lm p). \<forall>y\<in>set (owners h lm p). x = y)"
  proof (cases "owners h lm p")
    case Nil
    then show ?thesis by simp
  next
    case (Cons x xs)
    show ?thesis
    proof (cases xs)
      case Nil
      then show ?thesis using Cons by simp
    next
      case (Cons y ys)
      then have "x \<noteq> y" using d \<open>owners h lm p = x # xs\<close> by auto
      then show ?thesis using Cons \<open>owners h lm p = x # xs\<close> by auto
    qed
  qed
  then show ?thesis unfolding s by blast
qed

lemma SetPixel_consistent:
  assumes c: "consistent h lm"
  shows "\<exists>h' lm'. SetPixel h lm idx iLabel = Inr (h', lm')
           \<and> consistent h' lm'
           \<and> m_BackgroundValue lm' = m_BackgroundValue lm
           \<and> ((\<forall>p. length (owners h lm p) \<le> 1) \<longrightarrow> (\<forall>p. length (owners h' lm' p) \<le> 1))
           \<and> (\<forall>e\<in>set (m_LabelObjectContainer lm').
                 fst e \<noteq> iLabel \<longrightarrow> \<not> HasIndex (deref h' (snd e)) idx)"
proof -
  have dc: "distinct (m_LabelObjectContainer lm)"
    using c by (simp add: consistent_iff ordered_distinct)
  from SetPixel_loop_consistent[OF c, of "m_LabelObjectContainer lm" iLabel idx True] dc
  obtain h1 lm1 nl where
    l: "SetPixel_loop h lm (m_LabelObjectContainer lm) idx iLabel True = Inr ((h1, lm1), nl)"
    and c1: "consistent h1 lm1"
    and r1: "repainted idx h lm h1 lm1"
    and b1: "m_BackgroundValue lm1 = m_BackgroundValue lm"
    and p1: "\<forall>e\<in>set (m_LabelObjectContainer lm1).
                 fst e \<noteq> iLabel \<longrightarrow> \<not> HasIndex (deref h1 (snd e)) idx"
    by auto
  have o: "ordered (m_LabelObjectContainer lm)" using c by (simp add: consistent_iff)
  have o1: "ordered (m_LabelObjectContainer lm1)" using c1 by (simp add: consistent_iff)
  have sub: "set (m_LabelObjectContainer lm1) \<subseteq> set (m_LabelObjectContainer lm)"
    using r1 by (simp add: repainted_def)
  have reg: "\<And>e. e \<in> set (m_LabelObjectContainer lm1) \<Longrightarrow>
      m_Region (deref h1 (snd e)) - {idx} = m_Region (deref h (snd e)) - {idx}"
    using r1 by (simp add: repainted_def list_all_iff)
  have dj1: "\<forall>p. length (owners h1 lm1 p) \<le> 1" if dj: "\<forall>p. length (owners h lm p) \<le> 1"
  proof
    fix p
    show "length (owners h1 lm1 p) \<le> 1"
      unfolding owners_le_one_iff[OF o1]
    proof (intro ballI impI)
      fix e e'
      assume e: "e \<in> set (m_LabelObjectContainer lm1)" and e': "e' \<in> set (m_LabelObjectContainer lm1)"
        and i: "HasIndex (deref h1 (snd e)) p" and i': "HasIndex (deref h1 (snd e')) p"
      show "e = e'"
      proof (cases "p = idx")
        case True
        then have "fst e = iLabel" "fst e' = iLabel" using p1 e e' i i' by auto
        then show ?thesis using ordered_same_key[OF o1 e e'] by simp
      next
        case False
        have "HasIndex (deref h (snd e)) p" "HasIndex (deref h (snd e')) p"
          using reg[OF e] reg[OF e'] i i' False by (auto simp: HasIndex_def)
        moreover have "e \<in> set (m_LabelObjectContainer lm)" "e' \<in> set (m_LabelObjectContainer lm)"
          using e e' sub by auto
        ultimately show ?thesis using dj[rule_format, of p] unfolding owners_le_one_iff[OF o] by blast
      qed
    qed
  qed
  show ?thesis
  proof (cases "nl \<and> iLabel \<noteq> m_BackgroundValue lm")
    case False
    have "SetPixel h lm idx iLabel = Inr (h1, lm1)"
      using False l b1 by (auto simp: SetPixel_def AddPixel_it_def)
    then show ?thesis using c1 b1 dj1 p1 by auto
  next
    case True
    then have il: "iLabel \<noteq> m_BackgroundValue lm1" using b1 by simp
    from AddPixel_it_None_consistent[OF c1 il, of idx]
    obtain h' lm' where
      eq: "AddPixel_it h1 lm1 None idx iLabel = Inr (h', lm')"
      and c': "consistent h' lm'"
      and b': "m_BackgroundValue lm' = m_BackgroundValue lm1"
      and s': "set (m_LabelObjectContainer lm') =
               insert (iLabel, next_free h1) {e \<in> set (m_LabelObjectContainer lm1). fst e \<noteq> iLabel}"
      and d': "m_Region (deref h' (next_free h1)) = {idx}"
      and fr: "\<forall>b. b \<noteq> next_free h1 \<longrightarrow> deref h' b = deref h1 b"
      by blast
    have sp: "SetPixel h lm idx iLabel = Inr (h', lm')"
      using True l eq by (simp add: SetPixel_def)
    have o': "ordered (m_LabelObjectContainer lm')" using c' by (simp add: consistent_iff)
    have old: "\<And>e. e \<in> set (m_LabelObjectContainer lm1) \<Longrightarrow> deref h' (snd e) = deref h1 (snd e)"
      using c1 fr unfolding consistent_iff by auto
    have dj': "\<forall>p. length (owners h' lm' p) \<le> 1" if dj: "\<forall>p. length (owners h lm p) \<le> 1"
    proof
      fix p
      have A: "\<And>e. e \<in> set (m_LabelObjectContainer lm') \<Longrightarrow> HasIndex (deref h' (snd e)) p
                \<Longrightarrow> e \<noteq> (iLabel, next_free h1)
                \<Longrightarrow> p \<noteq> idx \<and> e \<in> set (m_LabelObjectContainer lm1)
                      \<and> HasIndex (deref h1 (snd e)) p"
      proof -
        fix e assume e: "e \<in> set (m_LabelObjectContainer lm')" and i: "HasIndex (deref h' (snd e)) p"
          and n: "e \<noteq> (iLabel, next_free h1)"
        then have e1: "e \<in> set (m_LabelObjectContainer lm1)" and k: "fst e \<noteq> iLabel"
          using s' by auto
        have i1: "HasIndex (deref h1 (snd e)) p" using old[OF e1] i by simp
        then have "p \<noteq> idx" using p1 e1 k by auto
        then show "p \<noteq> idx \<and> e \<in> set (m_LabelObjectContainer lm1) \<and> HasIndex (deref h1 (snd e)) p"
          using e1 i1 by simp
      qed
      have B: "HasIndex (deref h' (snd (iLabel, next_free h1))) p \<Longrightarrow> p = idx"
        using d' by (simp add: HasIndex_def)
      show "length (owners h' lm' p) \<le> 1"
        unfolding owners_le_one_iff[OF o']
      proof (intro ballI impI)
        fix e e'
        assume e: "e \<in> set (m_LabelObjectContainer lm')" and e': "e' \<in> set (m_LabelObjectContainer lm')"
          and i: "HasIndex (deref h' (snd e)) p" and i': "HasIndex (deref h' (snd e')) p"
        show "e = e'"
        proof (cases "e = (iLabel, next_free h1)")
          case True
          then have "p = idx" using B i by simp
          then show ?thesis using A[OF e' i'] True by blast
        next
          case False
          note Ae = A[OF e i False]
          show ?thesis
          proof (cases "e' = (iLabel, next_free h1)")
            case True
            then have "p = idx" using B i' by simp
            then show ?thesis using Ae by simp
          next
            case f: False
            note Ae' = A[OF e' i' f]
            show ?thesis
              using dj1[OF dj, rule_format, of p] Ae Ae' unfolding owners_le_one_iff[OF o1] by blast
          qed
        qed
      qed
    qed
    have ev: "\<forall>e\<in>set (m_LabelObjectContainer lm').
                 fst e \<noteq> iLabel \<longrightarrow> \<not> HasIndex (deref h' (snd e)) idx"
      using s' old p1 by auto
    show ?thesis using sp c' b' b1 dj' ev by auto
  qed
qed

subsection \<open>Calls that keep a label map consistent\<close>

lemma AddPixel_consistent:
  assumes c: "consistent h lm"
  shows "\<exists>h' lm'. AddPixel h lm idx label = Inr (h', lm') \<and> consistent h' lm'"
proof (cases "label = m_BackgroundValue lm")
  case True
  then show ?thesis using c by (simp add: AddPixel_def)
next
  case False
  show ?thesis
  proof (cases "container_find (m_LabelObjectContainer lm) label")
    case None
    then show ?thesis
      using AddPixel_it_None_consistent[OF c False, of idx] False by (auto simp: AddPixel_def)
  next
    case (Some e)
    then have "e \<in> set (m_LabelObjectContainer lm)" by (simp add: container_find_Some)
    from AddPixel_it_Some_consistent[OF c this False, of idx] show ?thesis
      using False Some by (auto simp: AddPixel_def)
  qed
qed

lemma RemovePixel_consistent:
  assumes c: "consistent h lm"
  shows "\<exists>h' lm'. RemovePixel h lm idx label = Inr (h', lm') \<and> consistent h' lm'"
proof (cases "label = m_BackgroundValue lm")
  case True
  then show ?thesis using c by (simp add: RemovePixel_def)
next
  case False
  show ?thesis
  proof (cases "container_find (m_LabelObjectContainer lm) label")
    case None
    then show ?thesis using c False by (simp add: RemovePixel_def RemovePixel_it_def)
  next
    case (Some e)
    then have "e \<in> set (m_LabelObjectContainer lm)" by (simp add: container_find_Some)
    from RemovePixel_it_consistent[OF c this, of idx True] show ?thesis
      using False Some by (auto simp: RemovePixel_def)
  qed
qed

lemma line_positions_nonempty: "idx \<noteq> [] \<Longrightarrow> 0 < len \<Longrightarrow> line_positions idx len \<noteq> {}"
  by (cases idx) auto

lemma SetLine_consistent:
  assumes c: "consistent h lm" and g: "idx \<noteq> []" "0 < len"
  shows "\<exists>h' lm'. SetLine h lm idx len label = Inr (h', lm') \<and> consistent h' lm'"
proof (cases "label = m_BackgroundValue lm")
  case True
  then show ?thesis using c by (simp add: SetLine_def)
next
  case False
  note ln = line_positions_nonempty[OF g]
  show ?thesis
  proof (cases "container_find (m_LabelObjectContainer lm) label")
    case (Some e)
    then have e: "e \<in> set (m_LabelObjectContainer lm)" by (simp add: container_find_Some)
    have "GetLabel (AddLine (deref h (snd e)) idx len) = fst e"
      using c e by (auto simp: consistent_iff GetLabel_def AddLine_def)
    moreover have "m_Region (AddLine (deref h (snd e)) idx len) \<noteq> {}"
      using ln by (simp add: AddLine_def)
    ultimately have "consistent (store h (snd e) (AddLine (deref h (snd e)) idx len)) (Modified lm)"
      using consistent_store_entry[OF c e] by (simp add: consistent_Modified)
    then show ?thesis using False Some by (simp add: SetLine_def)
  next
    case None
    define n where "n = next_free h"
    define h0 where "h0 = snd (New h)"
    define h1 where "h1 = store h0 n (SetLabel (deref h0 n) label)"
    define h2 where "h2 = store h1 n (AddLine (deref h1 n) idx len)"
    have new: "New h = (n, h0)" by (simp add: New_def n_def h0_def)
    have eq: "SetLine h lm idx len label = AddLabelObject h2 lm (Some n)"
      using False None unfolding h2_def h1_def by (simp add: SetLine_def new Let_def)
    have d: "deref h2 n = \<lparr> m_Label = label, m_Region = line_positions idx len \<rparr>"
      by (simp add: h2_def h1_def h0_def New_def n_def deref_def store_def SetLabel_def
          AddLine_def LabelObject_New_def)
    have fr: "\<forall>b. b \<noteq> n \<longrightarrow> deref h2 b = deref h b"
      by (simp add: h2_def h1_def h0_def New_def n_def deref_def store_def)
    have nf: "next_free h2 = Suc n"
      by (simp add: h2_def h1_def h0_def New_def n_def store_def)
    from consistent_new_object[OF c fr[unfolded n_def] nf[unfolded n_def], of label] d ln False
    obtain lm' where "AddLabelObject h2 lm (Some n) = Inr (h2, lm')" "consistent h2 lm'"
      by (auto simp: n_def GetLabel_def)
    then show ?thesis using eq by auto
  qed
qed

lemma consistent_subset:
  assumes c: "consistent h lm"
    and s: "m_LabelObjectContainer lm' = filter P (m_LabelObjectContainer lm)"
    and b: "m_BackgroundValue lm' = m_BackgroundValue lm"
  shows "consistent h lm'"
  using c unfolding consistent_iff s b by (auto simp: ordered_filter keys_def)

lemma RemoveLabel_consistent:
  assumes c: "consistent h lm"
  shows "consistent h (state_after (RemoveLabel lm label))"
proof (cases "m_BackgroundValue lm = label")
  case True
  then show ?thesis using c by (simp add: RemoveLabel_def state_after_def)
next
  case False
  have "consistent h (lm \<lparr> m_LabelObjectContainer :=
            container_erase (m_LabelObjectContainer lm) label \<rparr>)"
    by (rule consistent_subset[OF c, of _ "\<lambda>e. fst e \<noteq> label"]) (simp_all add: container_erase_def)
  then show ?thesis using False by (simp add: RemoveLabel_def state_after_def consistent_Modified)
qed

lemma ClearLabels_consistent:
  assumes c: "consistent h lm"
  shows "consistent h (ClearLabels lm)"
proof -
  have "consistent h (lm \<lparr> m_LabelObjectContainer := [] \<rparr>)"
    by (rule consistent_subset[OF c, of _ "\<lambda>e. False"]) simp_all
  then show ?thesis using c by (simp add: ClearLabels_def consistent_Modified)
qed

lemma Graft_consistent:
  assumes "consistent h lm" "consistent_call (h, lm) (CallGraft data)"
  shows "consistent h (state_after (Graft lm data))"
proof (cases data)
  case None
  then show ?thesis using assms by (simp add: Graft_def state_after_def)
next
  case (Some d)
  show ?thesis
  proof (cases d)
    case (LabelMapData imgData)
    then have "consistent h imgData" using assms(2) Some by simp
    then have "consistent h (lm \<lparr> m_LabelObjectContainer := m_LabelObjectContainer imgData,
                    m_BackgroundValue := m_BackgroundValue imgData \<rparr>)"
      unfolding consistent_iff by simp
    then show ?thesis using Some LabelMapData by (simp add: Graft_def state_after_def)
  next
    case OtherData
    then show ?thesis using assms(1) Some by (simp add: Graft_def state_after_def)
  qed
qed

lemma PushLabelObject_consistent:
  fixes lm :: "('l::len word) LabelMap"
  assumes c: "consistent h lm" and f: "fresh_object h lm a"
    and x: "\<not> PushLabelObject_exhausted lm"
  shows "\<exists>h' lm'. PushLabelObject h lm (Some a) = Inr (h', lm') \<and> consistent h' lm'"
proof -
  have o: "ordered (m_LabelObjectContainer lm)" and b: "background_excluded lm"
    using c by (simp_all add: consistent_def well_formed_def)
  from PushLabelObject_Some_cases[of h lm a] x
    PushLabelObject_never_ContainerFull[OF o b, of h "Some a"]
  obtain l where eq: "PushLabelObject h lm (Some a) =
             AddLabelObject (store h a (SetLabel (deref h a) l)) lm (Some a)"
    and l: "l \<noteq> m_BackgroundValue lm"
    by blast
  define h1 where "h1 = store h a (SetLabel (deref h a) l)"
  have na: "\<forall>e\<in>set (m_LabelObjectContainer lm). snd e \<noteq> a"
    using f by (auto simp: fresh_object_def)
  then have "\<forall>e\<in>set (m_LabelObjectContainer lm). deref h1 (snd e) = deref h (snd e)"
    by (simp add: h1_def deref_store)
  from consistent_heap_frame(2)[OF c this] have c1: "consistent h1 lm"
    by (simp add: h1_def next_free_store)
  have f1: "fresh_object h1 lm a"
    using f by (simp add: fresh_object_def h1_def next_free_store deref_store Empty_def SetLabel_def)
  have g1: "GetLabel (deref h1 a) \<noteq> m_BackgroundValue lm"
    using l by (simp add: h1_def GetLabel_store_SetLabel)
  from AddLabelObject_consistent[OF c1 f1 g1] show ?thesis
    unfolding eq h1_def by blast
qed

lemma perform_consistent:
  assumes c: "consistent h lm" and g: "consistent_call (h, lm) cl"
  shows "consistent (fst (state_after (perform (h, lm) cl))) (snd (state_after (perform (h, lm) cl)))"
proof (cases cl)
  case (CallAddLabelObject p)
  show ?thesis
  proof (cases p)
    case None
    then show ?thesis using c CallAddLabelObject by (simp add: AddLabelObject_def state_after_def)
  next
    case (Some a)
    then have "fresh_object h lm a" "GetLabel (deref h a) \<noteq> m_BackgroundValue lm"
      using g CallAddLabelObject by simp_all
    from AddLabelObject_consistent[OF c this] show ?thesis
      using CallAddLabelObject Some by (auto simp: state_after_def)
  qed
next
  case (CallPushLabelObject p)
  show ?thesis
  proof (cases p)
    case None
    then show ?thesis using c CallPushLabelObject by (simp add: PushLabelObject_def state_after_def)
  next
    case (Some a)
    then have "fresh_object h lm a" "\<not> PushLabelObject_exhausted lm"
      using g CallPushLabelObject by simp_all
    from PushLabelObject_consistent[OF c this] show ?thesis
      using CallPushLabelObject Some by (auto simp: state_after_def)
  qed
next
  case (CallAddPixel idx label)
  then show ?thesis using AddPixel_consistent[OF c, of idx label] by (auto simp: state_after_def)
next
  case (CallSetPixel idx label)
  then show ?thesis using SetPixel_consistent[OF c, of idx label] by (auto simp: state_after_def)
next
  case (CallSetLine idx len label)
  then have "idx \<noteq> []" "0 < len" using g by simp_all
  from SetLine_consistent[OF c this, of label] show ?thesis
    using CallSetLine by (auto simp: state_after_def)
next
  case (CallRemovePixel idx label)
  then show ?thesis using RemovePixel_consistent[OF c, of idx label] by (auto simp: state_after_def)
next
  case (CallRemoveLabel label)
  have "state_after (with_heap h (RemoveLabel lm label)) = (h, state_after (RemoveLabel lm label))"
    by (auto simp: with_heap_def state_after_def split: sum.splits)
  then show ?thesis using RemoveLabel_consistent[OF c, of label] CallRemoveLabel by simp
next
  case (CallGraft data)
  have "state_after (with_heap h (Graft lm data)) = (h, state_after (Graft lm data))"
    by (auto simp: with_heap_def state_after_def split: sum.splits)
  then show ?thesis using Graft_consistent[OF c, of data] g CallGraft by simp
next
  case CallClearLabels
  then show ?thesis using ClearLabels_consistent[OF c] by (simp add: state_after_def)
qed

lemma run_consistent:
  "consistent (fst s) (snd s) \<Longrightarrow> admissible consistent_call s cs
     \<Longrightarrow> consistent (fst (run s cs)) (snd (run s cs))"
proof (induction cs arbitrary: s)
  case Nil
  then show ?case by simp
next
  case (Cons cl cs)
  obtain h lm where s: "s = (h, lm)" by (cases s)
  have "consistent (fst (state_after (perform s cl))) (snd (state_after (perform s cl)))"
    using perform_consistent[of h lm cl] Cons.prems unfolding s by simp
  then show ?case using Cons.IH[of "state_after (perform s cl)"] Cons.prems by simp
qed

lemma consistent_ctor: "consistent h0 LabelMap_ctor"
  by (simp add: consistent_iff LabelMap_ctor_eq ordered_def keys_def)

subsection \<open>Disjointness along SetPixel (I3)\<close>

lemma run_SetPixel_calls:
  "consistent (fst s) (snd s) \<Longrightarrow> (\<forall>p. length (owners (fst s) (snd s) p) \<le> 1)
     \<Longrightarrow> consistent (fst (run s (SetPixel_calls ps))) (snd (run s (SetPixel_calls ps)))
         \<and> (\<forall>p. length (owners (fst (run s (SetPixel_calls ps)))
                              (snd (run s (SetPixel_calls ps))) p) \<le> 1)"
proof (induction ps arbitrary: s)
  case Nil
  then show ?case by (simp add: SetPixel_calls_def)
next
  case (Cons pl ps)
  obtain h lm where s: "s = (h, lm)" by (cases s)
  from SetPixel_consistent[of h lm "fst pl" "snd pl"] Cons.prems
  obtain h' lm' where eq: "SetPixel h lm (fst pl) (snd pl) = Inr (h', lm')"
    and c': "consistent h' lm'" and d': "\<forall>p. length (owners h' lm' p) \<le> 1"
    unfolding s by auto
  have "run s (SetPixel_calls (pl # ps)) = run (h', lm') (SetPixel_calls ps)"
    using eq by (simp add: SetPixel_calls_def s state_after_def)
  then show ?case using Cons.IH[of "(h', lm')"] c' d' by simp
qed

text \<open>
  C2. Starting from a freshly constructed label map, after every sequence of \<open>SetPixel\<close>
  calls every position \<open>p\<close> is owned by at most one stored label object. A further call
  \<open>SetPixel(p, L)\<close> succeeds, and after it \<open>p\<close> is owned by no stored object whose label
  differs from \<open>L\<close>: the call has removed \<open>p\<close> from all of them.
\<close>

theorem SetPixel_sequences_keep_owner_unique:
  "length (owners (fst (run (h0, LabelMap_ctor) (SetPixel_calls ps)))
                  (snd (run (h0, LabelMap_ctor) (SetPixel_calls ps))) p) \<le> 1
   \<and> (\<exists>h' lm'. SetPixel (fst (run (h0, LabelMap_ctor) (SetPixel_calls ps)))
                         (snd (run (h0, LabelMap_ctor) (SetPixel_calls ps))) p L = Inr (h', lm')
         \<and> list_all (\<lambda>e. fst e = L) (owners h' lm' p))"
proof -
  define s where "s = run (h0, LabelMap_ctor :: ('a word) LabelMap) (SetPixel_calls ps)"
  have "\<forall>p. length (owners h0 (LabelMap_ctor :: ('a word) LabelMap) p) \<le> 1"
    by (simp add: owners_def LabelMap_ctor_eq)
  then have c: "consistent (fst s) (snd s)" and d: "\<forall>p. length (owners (fst s) (snd s) p) \<le> 1"
    using run_SetPixel_calls[of "(h0, LabelMap_ctor)" ps] consistent_ctor[of h0]
    by (simp_all add: s_def)
  from SetPixel_consistent[OF c, of p L]
  obtain h' lm' where "SetPixel (fst s) (snd s) p L = Inr (h', lm')"
    "\<forall>e\<in>set (m_LabelObjectContainer lm'). fst e \<noteq> L \<longrightarrow> \<not> HasIndex (deref h' (snd e)) p"
    by blast
  then have "\<exists>h' lm'. SetPixel (fst s) (snd s) p L = Inr (h', lm')
         \<and> list_all (\<lambda>e. fst e = L) (owners h' lm' p)"
    by (auto simp: list_all_iff owners_def)
  then show ?thesis using d unfolding s_def by blast
qed

text \<open>
  After painting \<open>(0,0)\<close> with 5, repainting it with 3 and painting \<open>(1,0)\<close> with 3, the
  object of label 3 alone owns \<open>(0,0)\<close>.
\<close>

theorem SetPixel_sequences_keep_owner_unique_witness:
  "owners (fst (run (heap0, LabelMap_ctor) (SetPixel_calls paint_example)))
          (snd (run (heap0, LabelMap_ctor) (SetPixel_calls paint_example))) [0, 0] = [(3, 2)]
   \<and> length (owners (fst (run (heap0, LabelMap_ctor) (SetPixel_calls paint_example)))
                  (snd (run (heap0, LabelMap_ctor) (SetPixel_calls paint_example))) [0, 0]) \<le> 1"
  using SetPixel_sequences_keep_owner_unique[of heap0 paint_example "[0, 0]"]
  by (simp add: eval_defs SetPixel_calls_def paint_example_def owners_def)

subsection \<open>Round trip of AddPixel\<close>

lemma GetPixel_scan_first:
  "ordered c \<Longrightarrow> e \<in> set c \<Longrightarrow> HasIndex (deref h (snd e)) p
     \<Longrightarrow> (\<forall>e'\<in>set c. fst e' < fst e \<longrightarrow> \<not> HasIndex (deref h (snd e')) p)
     \<Longrightarrow> GetPixel_scan h c p bg = GetLabel (deref h (snd e))"
proof (induction c)
  case Nil
  then show ?case by simp
next
  case (Cons x xs)
  show ?case
  proof (cases "x = e")
    case True
    then show ?thesis using Cons.prems by simp
  next
    case False
    then have e: "e \<in> set xs" using Cons.prems by simp
    then have "fst x < fst e" using Cons.prems(1) by (auto simp: ordered_Cons)
    then have "\<not> HasIndex (deref h (snd x)) p" using Cons.prems(4) by simp
    moreover have "ordered xs" using Cons.prems(1) by (simp add: ordered_Cons)
    ultimately show ?thesis using Cons.IH e Cons.prems by simp
  qed
qed

lemma AddPixel_succeeds:
  assumes l: "L \<noteq> m_BackgroundValue lm"
  shows "\<exists>h' lm'. AddPixel h lm p L = Inr (h', lm') \<and> HasLabel lm' L"
proof (cases "container_find (m_LabelObjectContainer lm) L")
  case (Some e)
  then show ?thesis using l
    by (simp add: AddPixel_def AddPixel_it_def HasLabel_def Modified_def)
next
  case None
  define n where "n = next_free h"
  define h0 where "h0 = snd (New h)"
  define h1 where "h1 = store h0 n (SetLabel (deref h0 n) L)"
  define h2 where "h2 = store h1 n (AddIndex (deref h1 n) p)"
  have new: "New h = (n, h0)" by (simp add: New_def n_def h0_def)
  have eq: "AddPixel h lm p L = AddLabelObject h2 lm (Some n)"
    using l None unfolding h2_def h1_def by (simp add: AddPixel_def AddPixel_it_def new Let_def)
  have gl: "GetLabel (deref h2 n) = L"
    by (simp add: h2_def h1_def deref_store SetLabel_def AddIndex_def GetLabel_def)
  define lm' where "lm' = Modified (lm \<lparr> m_LabelObjectContainer :=
            container_assign (m_LabelObjectContainer lm) L n \<rparr>)"
  have "AddPixel h lm p L = Inr (h2, lm')"
    using eq gl by (simp add: AddLabelObject_def lm'_def)
  moreover have "HasLabel lm' L"
    by (simp add: HasLabel_def lm'_def Modified_def container_find_assign)
  ultimately show ?thesis by blast
qed

lemma AddPixel_GetPixel:
  assumes w: "well_formed h lm" and l: "L \<noteq> m_BackgroundValue lm"
    and a: "\<forall>e\<in>set (m_LabelObjectContainer lm). fst e < L \<longrightarrow> \<not> HasIndex (deref h (snd e)) p"
    and r: "AddPixel h lm p L = Inr (h', lm')"
  shows "GetPixel h' lm' p = L"
proof (cases "container_find (m_LabelObjectContainer lm) L")
  case (Some e)
  then have e: "e \<in> set (m_LabelObjectContainer lm)" and k: "fst e = L"
    by (simp_all add: container_find_Some)
  from AddPixel_it_Some_well_formed[OF w e, of p L] l
  obtain h1 lm1 where eq: "AddPixel_it h lm (Some e) p L = Inr (h1, lm1)"
    and w1: "well_formed h1 lm1"
    and same: "m_LabelObjectContainer lm1 = m_LabelObjectContainer lm"
    and hi: "HasIndex (deref h1 (snd e)) p"
    and fr: "\<forall>b. b \<noteq> snd e \<longrightarrow> deref h1 b = deref h b"
    by blast
  have hl: "h' = h1" "lm' = lm1" using l Some eq r by (simp_all add: AddPixel_def)
  have o1: "ordered (m_LabelObjectContainer lm1)" using w1 by (simp add: well_formed_iff)
  have e1: "e \<in> set (m_LabelObjectContainer lm1)" using e same by simp
  have lab: "GetLabel (deref h1 (snd e)) = L" using w1 e1 k by (auto simp: well_formed_iff)
  have "\<forall>e'\<in>set (m_LabelObjectContainer lm1). fst e' < fst e \<longrightarrow> \<not> HasIndex (deref h1 (snd e')) p"
  proof (intro ballI impI)
    fix e' assume e': "e' \<in> set (m_LabelObjectContainer lm1)" and lt: "fst e' < fst e"
    then have "e' \<noteq> e" by auto
    then have "snd e' \<noteq> snd e" using well_formed_same_address[OF w1 e' e1] by blast
    then show "\<not> HasIndex (deref h1 (snd e')) p" using fr a e' lt k same by simp
  qed
  from GetPixel_scan_first[OF o1 e1 hi this] show ?thesis using lab hl by (simp add: GetPixel_def)
next
  case None
  from AddPixel_it_None_well_formed[OF w l, of p]
  obtain h1 lm1 where eq: "AddPixel_it h lm None p L = Inr (h1, lm1)"
    and w1: "well_formed h1 lm1"
    and s': "set (m_LabelObjectContainer lm1) =
               insert (L, next_free h) {e \<in> set (m_LabelObjectContainer lm). fst e \<noteq> L}"
    and d': "deref h1 (next_free h) = \<lparr> m_Label = L, m_Region = {p} \<rparr>"
    and fr: "\<forall>b. b \<noteq> next_free h \<longrightarrow> deref h1 b = deref h b"
    by blast
  have hl: "h' = h1" "lm' = lm1" using l None eq r by (simp_all add: AddPixel_def)
  have n: "(L, next_free h) \<in> set (m_LabelObjectContainer lm1)" using s' by simp
  have o1: "ordered (m_LabelObjectContainer lm1)" using w1 by (simp add: well_formed_iff)
  have lab: "GetLabel (deref h1 (next_free h)) = L" using d' by (simp add: GetLabel_def)
  have hi: "HasIndex (deref h1 (snd (L, next_free h))) p" using d' by (simp add: HasIndex_def)
  have old: "\<And>e. e \<in> set (m_LabelObjectContainer lm) \<Longrightarrow> deref h1 (snd e) = deref h (snd e)"
    using w fr unfolding well_formed_iff by auto
  have "\<forall>e'\<in>set (m_LabelObjectContainer lm1).
            fst e' < fst (L, next_free h) \<longrightarrow> \<not> HasIndex (deref h1 (snd e')) p"
    using s' old a by auto
  from GetPixel_scan_first[OF o1 n hi this] show ?thesis using lab hl by (simp add: GetPixel_def)
qed

text \<open>
  C5, amended. Let \<open>L\<close> differ from the background value. In every state of the label
  map, \<open>AddPixel(p, L)\<close> succeeds and \<open>HasLabel(L)\<close> holds afterwards. If the label map is
  well formed (every stored object is stored under the label it reports) and, before the
  call, no object stored under a label smaller than \<open>L\<close> owns \<open>p\<close>, then \<open>GetPixel(p)\<close>
  is \<open>L\<close> afterwards. Every state reached from a freshly constructed label map is well
  formed, and no call on the way runs into undefined behaviour, as long as
  \<open>PushLabelObject\<close> is never given an object that is stored in the container already and
  every \<open>Graft\<close> source is well formed. As in the program, every object handed over or
  stored has been constructed before: its address is below \<open>next_free\<close>.
\<close>

theorem AddPixel_round_trip_well_formed:
  "(L \<noteq> m_BackgroundValue lm \<longrightarrow>
      (\<exists>h' lm'. AddPixel h lm p L = Inr (h', lm')
         \<and> HasLabel lm' L
         \<and> (well_formed h lm
              \<and> list_all (\<lambda>e. fst e < L \<longrightarrow> \<not> HasIndex (deref h (snd e)) p)
                   (m_LabelObjectContainer lm)
            \<longrightarrow> GetPixel h' lm' p = L)))
   \<and> (admissible proper_handover (h0, LabelMap_ctor) cs \<longrightarrow>
        well_defined (h0, LabelMap_ctor) cs
        \<and> well_formed (fst (run (h0, LabelMap_ctor) cs)) (snd (run (h0, LabelMap_ctor) cs)))"
proof (intro conjI impI)
  assume l: "L \<noteq> m_BackgroundValue lm"
  from AddPixel_succeeds[OF l, of h p]
  obtain h' lm' where r: "AddPixel h lm p L = Inr (h', lm')" and hl: "HasLabel lm' L" by blast
  have "GetPixel h' lm' p = L"
    if "well_formed h lm
        \<and> list_all (\<lambda>e. fst e < L \<longrightarrow> \<not> HasIndex (deref h (snd e)) p) (m_LabelObjectContainer lm)"
    using AddPixel_GetPixel[OF _ l _ r] that by (simp add: list_all_iff)
  then show "\<exists>h' lm'. AddPixel h lm p L = Inr (h', lm')
         \<and> HasLabel lm' L
         \<and> (well_formed h lm
              \<and> list_all (\<lambda>e. fst e < L \<longrightarrow> \<not> HasIndex (deref h (snd e)) p)
                   (m_LabelObjectContainer lm)
            \<longrightarrow> GetPixel h' lm' p = L)"
    using r hl by blast
next
  assume a: "admissible proper_handover (h0, LabelMap_ctor :: ('b word) LabelMap) cs"
  from run_well_formed[of "(h0, LabelMap_ctor)" cs] a
  show "well_defined (h0, LabelMap_ctor) cs"
    and "well_formed (fst (run (h0, LabelMap_ctor) cs)) (snd (run (h0, LabelMap_ctor) cs))"
    by (simp_all add: well_formed_ctor)
qed

text \<open>
  After the pixel-level example calls the object of label 3 owns \<open>(0,0)\<close>. Adding
  \<open>(0,0)\<close> to label 2 makes \<open>GetPixel\<close> answer 2, as 2 comes before 3.
\<close>

theorem AddPixel_round_trip_well_formed_witness:
  "admissible proper_handover (heap0, LabelMap_ctor) pixel_calls_example
   \<and> well_formed (fst (run (heap0, LabelMap_ctor) pixel_calls_example))
                  (snd (run (heap0, LabelMap_ctor) pixel_calls_example))
   \<and> 2 \<noteq> m_BackgroundValue (snd (run (heap0, LabelMap_ctor) pixel_calls_example))
   \<and> list_all (\<lambda>e. fst e < 2 \<longrightarrow>
                  \<not> HasIndex (deref (fst (run (heap0, LabelMap_ctor) pixel_calls_example)) (snd e)) [0, 0])
        (m_LabelObjectContainer (snd (run (heap0, LabelMap_ctor) pixel_calls_example)))
   \<and> HasLabel (snd (state_after (AddPixel (fst (run (heap0, LabelMap_ctor) pixel_calls_example))
                                   (snd (run (heap0, LabelMap_ctor) pixel_calls_example)) [0, 0] 2))) 2
   \<and> GetPixel (fst (state_after (AddPixel (fst (run (heap0, LabelMap_ctor) pixel_calls_example))
                                   (snd (run (heap0, LabelMap_ctor) pixel_calls_example)) [0, 0] 2)))
               (snd (state_after (AddPixel (fst (run (heap0, LabelMap_ctor) pixel_calls_example))
                                   (snd (run (heap0, LabelMap_ctor) pixel_calls_example)) [0, 0] 2)))
               [0, 0] = 2"
proof -
  define s where "s = run (heap0, LabelMap_ctor) pixel_calls_example"
  have a: "admissible proper_handover (heap0, LabelMap_ctor) pixel_calls_example"
    by (simp add: eval_defs pixel_calls_example_def)
  have b: "2 \<noteq> m_BackgroundValue (snd s)"
    unfolding s_def by (simp add: eval_defs pixel_calls_example_def)
  have c: "list_all (\<lambda>e. fst e < 2 \<longrightarrow> \<not> HasIndex (deref (fst s) (snd e)) [0, 0])
        (m_LabelObjectContainer (snd s))"
    unfolding s_def by (simp add: eval_defs pixel_calls_example_def)
  note t = AddPixel_round_trip_well_formed[of 2 "snd s" "fst s" "[0, 0]" heap0 pixel_calls_example]
  have w: "well_formed (fst s) (snd s)" using t a unfolding s_def by blast
  from t b w c obtain h' lm' where "AddPixel (fst s) (snd s) [0, 0] 2 = Inr (h', lm')"
    "HasLabel lm' 2" "GetPixel h' lm' [0, 0] = 2" by blast
  then show ?thesis using a b c w unfolding s_def by (simp add: state_after_def)
qed

text \<open>
  C5 as stated fails: \<open>AddPixel\<close> does not remove the position from other objects, and
  \<open>GetPixel\<close> answers with the first owner in ascending label order. After
  \<open>AddPixel((0,0), 1)\<close> on a fresh label map, \<open>AddPixel((0,0), 2)\<close> leaves \<open>GetPixel((0,0))\<close>
  at 1.
\<close>

theorem AddPixel_hidden_by_smaller_label:
  "2 \<noteq> m_BackgroundValue (snd (run (heap0, LabelMap_ctor) [CallAddPixel [0, 0] 1]))
   \<and> GetPixel (fst (run (heap0, LabelMap_ctor) [CallAddPixel [0, 0] 1, CallAddPixel [0, 0] 2]))
               (snd (run (heap0, LabelMap_ctor) [CallAddPixel [0, 0] 1, CallAddPixel [0, 0] 2]))
               [0, 0] = 1
   \<and> (1 :: 8 word) \<noteq> 2"
  by (simp add: eval_defs GetPixel_def)

subsection \<open>No empty object (I4)\<close>

text \<open>
  C6, amended. In every state reached from a freshly constructed label map by calls that
  keep it consistent (\<open>AddPixel\<close>, \<open>SetPixel\<close>, \<open>RemovePixel\<close>, \<open>RemoveLabel\<close>,
  \<open>ClearLabels\<close>; \<open>SetLine\<close> with a positive length; \<open>AddLabelObject\<close> and
  \<open>PushLabelObject\<close> with a non-empty object that is not yet stored; \<open>Graft\<close> from a
  consistent source) every stored label object is non-empty. In particular \<open>RemovePixel\<close>
  succeeds on such a state and leaves no empty object behind: an object it empties is
  deleted in the same call.
\<close>

theorem stored_objects_nonempty:
  "admissible consistent_call (h0, LabelMap_ctor) cs \<longrightarrow>
     no_empty_object (fst (run (h0, LabelMap_ctor) cs)) (snd (run (h0, LabelMap_ctor) cs))
     \<and> (\<exists>h' lm'. RemovePixel (fst (run (h0, LabelMap_ctor) cs))
                             (snd (run (h0, LabelMap_ctor) cs)) p L = Inr (h', lm')
           \<and> no_empty_object h' lm')"
proof
  define s where "s = run (h0, LabelMap_ctor :: ('a word) LabelMap) cs"
  assume "admissible consistent_call (h0, LabelMap_ctor :: ('a word) LabelMap) cs"
  then have c: "consistent (fst s) (snd s)"
    using run_consistent[of "(h0, LabelMap_ctor)" cs] consistent_ctor[of h0] by (simp add: s_def)
  from RemovePixel_consistent[OF c, of p L]
  have "\<exists>h' lm'. RemovePixel (fst s) (snd s) p L = Inr (h', lm') \<and> no_empty_object h' lm'"
    by (auto simp: consistent_def)
  then show "no_empty_object (fst (run (h0, LabelMap_ctor) cs)) (snd (run (h0, LabelMap_ctor) cs))
     \<and> (\<exists>h' lm'. RemovePixel (fst (run (h0, LabelMap_ctor) cs))
                             (snd (run (h0, LabelMap_ctor) cs)) p L = Inr (h', lm')
           \<and> no_empty_object h' lm')"
    using c unfolding s_def consistent_def by blast
qed

text \<open>
  After the pixel-level example calls the only object is that of label 3, which owns
  \<open>(0,0)\<close> alone; removing \<open>(0,0)\<close> from label 3 leaves the container empty.
\<close>

theorem stored_objects_nonempty_witness:
  "admissible consistent_call (heap0, LabelMap_ctor) pixel_calls_example
   \<and> no_empty_object (fst (run (heap0, LabelMap_ctor) pixel_calls_example))
                       (snd (run (heap0, LabelMap_ctor) pixel_calls_example))
   \<and> m_LabelObjectContainer (snd (state_after
         (RemovePixel (fst (run (heap0, LabelMap_ctor) pixel_calls_example))
                      (snd (run (heap0, LabelMap_ctor) pixel_calls_example)) [0, 0] 3))) = []"
proof -
  have a: "admissible consistent_call (heap0, LabelMap_ctor) pixel_calls_example"
    by (simp add: eval_defs pixel_calls_example_def)
  have r: "m_LabelObjectContainer (snd (state_after
         (RemovePixel (fst (run (heap0, LabelMap_ctor) pixel_calls_example))
                      (snd (run (heap0, LabelMap_ctor) pixel_calls_example)) [0, 0] 3))) = []"
    by (simp add: eval_defs pixel_calls_example_def)
  from stored_objects_nonempty[of heap0 pixel_calls_example "[0, 0]" 3] a r
  show ?thesis by simp
qed

text \<open>
  C6 as stated fails: \<open>AddLabelObject\<close> stores the object it is given without looking at
  its region. Adding the caller's object of \<open>heap1\<close> (label 1, no position) to a fresh
  label map leaves an empty object in the container.
\<close>

theorem AddLabelObject_stores_empty_object:
  "\<not> no_empty_object (fst (run (heap1, LabelMap_ctor) [CallAddLabelObject (Some 0)]))
                       (snd (run (heap1, LabelMap_ctor) [CallAddLabelObject (Some 0)]))"
  by (simp add: eval_defs heap1_def no_empty_object_def)

subsection \<open>Why a handed-over object must not be stored already\<close>

text \<open>
  \<open>PushLabelObject\<close> relabels the object it is given. Pushed twice, the caller's object of
  \<open>heap2\<close> is stored under the labels 1 and 2 and reports label 2. Then
  \<open>AddPixel((0,0), 1)\<close> makes \<open>GetPixel((0,0))\<close> answer 2, and \<open>RemovePixel((5,5), 1)\<close>
  empties the object but erases the entry of label 2, so that the entry of label 1 keeps
  an empty object. \<open>SetPixel((5,5), 7)\<close> removes \<open>(5,5)\<close> from the object at the entry of
  label 1 and thereby erases the entry of label 2, to which its iterator has advanced: the
  call has undefined behaviour. The same happens after a \<open>Graft\<close> from such a label map.
\<close>

lemma pushed_twice_round_trip:
  "GetPixel (fst (run (heap2, LabelMap_ctor)
                   [CallPushLabelObject (Some 0), CallPushLabelObject (Some 0),
                    CallAddPixel [0, 0] 1]))
            (snd (run (heap2, LabelMap_ctor)
                   [CallPushLabelObject (Some 0), CallPushLabelObject (Some 0),
                    CallAddPixel [0, 0] 1])) [0, 0] = 2"
  by (simp add: eval_defs heap2_def GetPixel_def)

lemma pushed_twice_empty_object:
  "m_LabelObjectContainer (snd (run (heap2, LabelMap_ctor)
       [CallPushLabelObject (Some 0), CallPushLabelObject (Some 0),
        CallRemovePixel [5, 5] 1])) = [(1, 0)]
   \<and> \<not> no_empty_object
         (fst (run (heap2, LabelMap_ctor)
                 [CallPushLabelObject (Some 0), CallPushLabelObject (Some 0),
                  CallRemovePixel [5, 5] 1]))
         (snd (run (heap2, LabelMap_ctor)
                 [CallPushLabelObject (Some 0), CallPushLabelObject (Some 0),
                  CallRemovePixel [5, 5] 1]))"
  by (simp add: eval_defs heap2_def no_empty_object_def)

lemma pushed_twice_SetPixel_undefined:
  "is_undefined (perform (run (heap2, LabelMap_ctor)
                    [CallPushLabelObject (Some 0), CallPushLabelObject (Some 0)])
                 (CallSetPixel [5, 5] 7))"
  by (simp add: eval_defs heap2_def)

lemma graft_pushed_twice_SetPixel_undefined:
  "is_undefined
     (perform
        (run (fst (run (heap2, LabelMap_ctor)
                     [CallPushLabelObject (Some 0), CallPushLabelObject (Some 0)]),
              LabelMap_ctor)
           [CallGraft (Some (LabelMapData
              (snd (run (heap2, LabelMap_ctor)
                      [CallPushLabelObject (Some 0), CallPushLabelObject (Some 0)]))))])
        (CallSetPixel [5, 5] 7))"
  by (simp add: eval_defs heap2_def)


end
